theory Spec2Isabelle
  imports Main "HOL-Library.Multiset"
begin

section \<open>JavaScript strings and numbers used by the collection routes\<close>

text \<open>
  Strings are lists of characters with code points below 256. \<open>toLowerCase\<close> lowers the
  letters A to Z and the Latin-1 capitals; \<open>trim\<close> strips the white space and line
  terminators of that range from both ends.
\<close>

definition toLowerChar :: "char \<Rightarrow> char" where
  "toLowerChar c =
     (let n = (of_char c :: nat)
      in if (65 \<le> n \<and> n \<le> 90) \<or> (192 \<le> n \<and> n \<le> 222 \<and> n \<noteq> 215)
         then char_of (n + 32) else c)"

definition toLowerCase :: "string \<Rightarrow> string" where
  "toLowerCase s = map toLowerChar s"

fun startsWith :: "string \<Rightarrow> string \<Rightarrow> bool" where
  "startsWith s [] = True"
| "startsWith [] (p # ps) = False"
| "startsWith (c # cs) (p # ps) = (c = p \<and> startsWith cs ps)"

fun includes_str :: "string \<Rightarrow> string \<Rightarrow> bool" where
  "includes_str [] n = (n = [])"
| "includes_str (c # cs) n = (startsWith (c # cs) n \<or> includes_str cs n)"

definition isWhiteSpace :: "char \<Rightarrow> bool" where
  "isWhiteSpace c = ((of_char c :: nat) \<in> {9, 10, 11, 12, 13, 32, 160})"

definition trim :: "string \<Rightarrow> string" where
  "trim s = rev (dropWhile isWhiteSpace (rev (dropWhile isWhiteSpace s)))"

definition isDigit :: "char \<Rightarrow> bool" where
  "isDigit c = (c \<in> set ''0123456789'')"

text \<open>The regular expression \<^verbatim>\<open>/^group \d-\d$/\<close>.\<close>

definition match_group_range :: "string \<Rightarrow> bool" where
  "match_group_range s =
     (startsWith s ''group '' \<and>
      (case drop 6 s of
         [a, b, c] \<Rightarrow> isDigit a \<and> b = CHR ''-'' \<and> isDigit c
       | _ \<Rightarrow> False))"

text \<open>The regular expression \<^verbatim>\<open>/^group \d+$/\<close>.\<close>

definition match_group_number :: "string \<Rightarrow> bool" where
  "match_group_number s =
     (startsWith s ''group '' \<and> drop 6 s \<noteq> [] \<and> list_all isDigit (drop 6 s))"

text \<open>The regular expression \<^verbatim>\<open>/^Group [1-8]/\<close>, anchored at the start only.\<close>

definition match_Group_1_8 :: "string \<Rightarrow> bool" where
  "match_Group_1_8 s =
     (startsWith s ''Group '' \<and>
      (case drop 6 s of
         [] \<Rightarrow> False
       | d # _ \<Rightarrow> d \<in> set ''12345678''))"

text \<open>
  The decimal text a template literal produces for an integer of magnitude below
  \<open>10\<^sup>2\<^sup>1\<close>: the digits, after a minus sign when the number is negative. From
  \<open>10\<^sup>2\<^sup>1\<close> on JavaScript prints an exponent instead, which this function does
  not; record ids and counts are far below that, and only an id sent to batch-delete
  by a caller could reach it.
\<close>

fun digits_of_nat :: "nat \<Rightarrow> string" where
  "digits_of_nat n =
     (if n < 10 then [char_of (48 + n)]
      else digits_of_nat (n div 10) @ [char_of (48 + n mod 10)])"

declare digits_of_nat.simps [simp del]

definition number_toString :: "int \<Rightarrow> string" where
  "number_toString i =
     (if i < 0 then CHR ''-'' # digits_of_nat (nat (- i)) else digits_of_nat (nat i))"

text \<open>
  A JavaScript number that is an integer or \<open>NaN\<close>: \<open>None\<close> is \<open>NaN\<close>. Subtraction
  gives \<open>NaN\<close> as soon as one operand is \<open>NaN\<close>.
\<close>

type_synonym jsnum = "int option"

definition js_minus :: "jsnum \<Rightarrow> jsnum \<Rightarrow> jsnum" where
  "js_minus a b =
     (case a of None \<Rightarrow> None
      | Some x \<Rightarrow> (case b of None \<Rightarrow> None | Some y \<Rightarrow> Some (x - y)))"

section \<open>Array.prototype.sort\<close>

text \<open>
  The comparator's result goes through the language's \<open>SortCompare\<close>, which turns
  \<open>NaN\<close> into \<open>+0\<close>. The sort is stable. For a consistent comparator every conforming
  engine returns the one stable sorted order, which the insertion sort below computes. For
  an inconsistent comparator (here: three or more records of which some have a
  \<open>submittedAt\<close> that parses and some have not) the language leaves the order to the
  engine, and the order of the insertion sort need not be the engine's; the theorems
  below that depend on the order are stated for groups on which the comparator is
  consistent.
\<close>

definition SortCompare :: "('a \<Rightarrow> 'a \<Rightarrow> jsnum) \<Rightarrow> 'a \<Rightarrow> 'a \<Rightarrow> int" where
  "SortCompare comparefn x y = (case comparefn x y of None \<Rightarrow> 0 | Some v \<Rightarrow> v)"

fun sort_insert :: "('a \<Rightarrow> 'a \<Rightarrow> jsnum) \<Rightarrow> 'a \<Rightarrow> 'a list \<Rightarrow> 'a list" where
  "sort_insert comparefn x [] = [x]"
| "sort_insert comparefn x (y # ys) =
     (if SortCompare comparefn x y \<le> 0 then x # y # ys
      else y # sort_insert comparefn x ys)"

definition js_sort :: "('a \<Rightarrow> 'a \<Rightarrow> jsnum) \<Rightarrow> 'a list \<Rightarrow> 'a list" where
  "js_sort comparefn xs = foldr (sort_insert comparefn) xs []"

text \<open>\<open>xs[0]\<close> is \<open>undefined\<close> on an empty array; \<open>xs.slice(1)\<close> is \<open>drop 1 xs\<close>.\<close>

definition first_elem :: "'a list \<Rightarrow> 'a option" where
  "first_elem xs = (case xs of [] \<Rightarrow> None | x # _ \<Rightarrow> Some x)"

section \<open>Collection records\<close>

text \<open>
  The record's \<open>id\<close> field is \<open>cid\<close> here. \<open>hostName\<close> is \<open>None\<close> when the stored
  value is \<open>null\<close>, which the handlers test for in one place. \<open>individualSandwiches\<close> is
  an integer; the CSV import of the same file stores whatever \<open>parseInt\<close> accepts, a
  negative number included. \<open>submittedAt\<close> is kept as stored; \<open>new Date(x).getTime()\<close>
  is the parameter \<open>getTime\<close> of the functions below, \<open>None\<close> for an invalid date.
\<close>

record collection =
  cid :: int
  hostName :: "string option"
  collectionDate :: string
  individualSandwiches :: int
  groupCollections :: string
  submittedAt :: string

text \<open>A template literal prints \<open>null\<close> as the text null.\<close>

definition template_text :: "string option \<Rightarrow> string" where
  "template_text h = (case h of None \<Rightarrow> ''null'' | Some s \<Rightarrow> s)"

definition duplicate_key :: "collection \<Rightarrow> string" where
  "duplicate_key c =
     collectionDate c @ ''-'' @ template_text (hostName c) @ ''-'' @
     number_toString (individualSandwiches c) @ ''-'' @ groupCollections c"

definition og_key :: "collection \<Rightarrow> string" where
  "og_key c = collectionDate c @ ''-'' @ number_toString (individualSandwiches c)"

definition newest_first :: "(string \<Rightarrow> jsnum) \<Rightarrow> collection \<Rightarrow> collection \<Rightarrow> jsnum" where
  "newest_first getTime a b = js_minus (getTime (submittedAt b)) (getTime (submittedAt a))"

definition id_descending :: "collection \<Rightarrow> collection \<Rightarrow> jsnum" where
  "id_descending a b = Some (cid b - cid a)"

section \<open>Grouping into a Map\<close>

text \<open>
  A \<open>Map\<close> from key text to an array of records keeps its keys in insertion order.
  \<open>map_push k v m\<close> is: set \<open>k\<close> to the empty array if the map lacks it, then push \<open>v\<close>
  onto the array at \<open>k\<close>.
\<close>

fun map_push :: "string \<Rightarrow> 'a \<Rightarrow> (string \<times> 'a list) list \<Rightarrow> (string \<times> 'a list) list" where
  "map_push k v [] = [(k, [v])]"
| "map_push k v ((k', vs) # m) =
     (if k' = k then (k', vs @ [v]) # m else (k', vs) # map_push k v m)"

definition group_by :: "('a \<Rightarrow> string) \<Rightarrow> 'a list \<Rightarrow> (string \<times> 'a list) list" where
  "group_by key cs = foldl (\<lambda>m c. map_push (key c) c m) [] cs"

section \<open>Suspicious host names\<close>

text \<open>
  Both classifiers look at the lower-cased \<open>hostName\<close>. The narrow one is the test of
  analyze-duplicates, the broad one the filter of clean-duplicates in suspicious mode.
\<close>

definition suspicious_narrow :: "string \<Rightarrow> bool" where
  "suspicious_narrow name =
     (let host = toLowerCase name
      in startsWith host ''loc '' \<or>
         match_group_range host \<or>
         includes_str host ''test'' \<or>
         includes_str host ''duplicate'')"

definition suspicious_broad :: "string \<Rightarrow> bool" where
  "suspicious_broad name =
     (let host = toLowerCase name
      in startsWith host ''loc '' \<or>
         match_group_range host \<or>
         match_group_number host \<or>
         includes_str host ''test'' \<or>
         includes_str host ''duplicate'')"

text \<open>The filter of the bulk delete, on the \<open>hostName\<close> as stored.\<close>

definition bulk_pattern :: "string \<Rightarrow> bool" where
  "bulk_pattern host = (startsWith host ''Loc '' \<or> match_Group_1_8 host)"

text \<open>
  A \<open>filter\<close> or \<open>forEach\<close> whose callback calls a string method on \<open>hostName\<close> throws a
  TypeError at the first record whose \<open>hostName\<close> is \<open>null\<close>: \<open>None\<close> is that throw.
\<close>

definition host_matches :: "(string \<Rightarrow> bool) \<Rightarrow> collection \<Rightarrow> bool" where
  "host_matches p c = (case hostName c of None \<Rightarrow> False | Some h \<Rightarrow> p h)"

definition host_filter :: "(string \<Rightarrow> bool) \<Rightarrow> collection list \<Rightarrow> collection list option" where
  "host_filter p cs =
     (if list_ex (\<lambda>c. hostName c = None) cs then None
      else Some (filter (host_matches p) cs))"

section \<open>Matching against the OG Sandwich Project\<close>

datatype og_duplicate =
    EarlyMatch "collection option" collection string
  | OgMatch "collection option" collection string

text \<open>
  \<open>EarlyMatch ogEntry earlyEntry reason\<close> and \<open>OgMatch ogEntry duplicateOgEntry reason\<close>
  are the two shapes of object pushed onto \<open>ogDuplicates\<close>.
\<close>

definition is_og_collection :: "collection \<Rightarrow> bool" where
  "is_og_collection c = (hostName c = Some ''OG Sandwich Project'')"

definition is_early_collection :: "collection \<Rightarrow> bool" where
  "is_early_collection c =
     (hostName c \<noteq> Some ''OG Sandwich Project'' \<and>
      (hostName c = Some [] \<or>
       (case hostName c of
          None \<Rightarrow> True
        | Some h \<Rightarrow>
            trim h = [] \<or>
            includes_str (toLowerCase h) ''unknown'' \<or>
            includes_str (toLowerCase h) ''no location'')))"

definition early_matches :: "(string \<times> collection list) list \<Rightarrow> collection list \<Rightarrow> og_duplicate list" where
  "early_matches ogMap earlyCollections =
     concat (map (\<lambda>early.
        case map_of ogMap (og_key early) of
          None \<Rightarrow> []
        | Some ogEntries \<Rightarrow>
            [EarlyMatch (first_elem ogEntries) early
               ''Same date and sandwich count as OG Project entry''])
      earlyCollections)"

definition og_group_matches :: "(string \<Rightarrow> jsnum) \<Rightarrow> collection list \<Rightarrow> og_duplicate list" where
  "og_group_matches getTime ogGroup =
     (if length ogGroup > 1
      then (let sortedGroup = js_sort (newest_first getTime) ogGroup
            in map (\<lambda>duplicate. OgMatch (first_elem sortedGroup) duplicate ''Duplicate OG Project entry'')
                 (drop 1 sortedGroup))
      else [])"

definition og_matcher :: "(string \<Rightarrow> jsnum) \<Rightarrow> collection list \<Rightarrow> og_duplicate list" where
  "og_matcher getTime collections =
     (let ogCollections = filter is_og_collection collections;
          earlyCollections = filter is_early_collection collections;
          ogMap = group_by og_key ogCollections
      in early_matches ogMap earlyCollections @
         concat (map (\<lambda>(k, ogGroup). og_group_matches getTime ogGroup) ogMap))"

section \<open>The analyze-duplicates handler\<close>

text \<open>
  \<open>group.sort\<close> sorts the array in place and returns it, and the properties of the object
  literal are evaluated in order: \<open>entries\<close> is the same array, and \<open>slice(1)\<close> runs on
  the sorted array.
\<close>

record duplicate_group =
  entries :: "collection list"
  group_count :: nat
  keepNewest :: "collection option"
  toDelete :: "collection list"

definition duplicate_report :: "(string \<Rightarrow> jsnum) \<Rightarrow> collection list \<Rightarrow> duplicate_group" where
  "duplicate_report getTime grp =
     (let sortedGroup = js_sort (newest_first getTime) grp
      in \<lparr>entries = sortedGroup, group_count = length grp,
          keepNewest = first_elem sortedGroup, toDelete = drop 1 sortedGroup\<rparr>)"

definition find_duplicates :: "(string \<Rightarrow> jsnum) \<Rightarrow> collection list \<Rightarrow> duplicate_group list" where
  "find_duplicates getTime collections =
     map (duplicate_report getTime)
       (filter (\<lambda>grp. length grp > 1) (map snd (group_by duplicate_key collections)))"

datatype http_error = Status400 string | Status500 string

record analysis =
  totalCollections :: nat
  duplicateGroups :: nat
  totalDuplicateEntries :: nat
  suspiciousPatterns :: nat
  ogDuplicates :: nat
  duplicates :: "duplicate_group list"
  suspiciousEntries :: "collection list"
  ogDuplicateEntries :: "og_duplicate list"

text \<open>
  The first loop of the handler calls \<open>toLowerCase\<close> on every \<open>hostName\<close>, so a \<open>null\<close>
  one sends the handler to its \<open>catch\<close> before any report is built.
\<close>

definition analyze_duplicates :: "(string \<Rightarrow> jsnum) \<Rightarrow> collection list \<Rightarrow> http_error + analysis" where
  "analyze_duplicates getTime collections =
     (case host_filter suspicious_narrow collections of
        None \<Rightarrow> Inl (Status500 ''Failed to analyze duplicates'')
      | Some suspicious \<Rightarrow>
          (let found = find_duplicates getTime collections;
               og = og_matcher getTime collections
           in Inr \<lparr>totalCollections = length collections,
                   duplicateGroups = length found,
                   totalDuplicateEntries = sum_list (map (\<lambda>grp. length (toDelete grp)) found),
                   suspiciousPatterns = length suspicious,
                   ogDuplicates = length og,
                   duplicates = found,
                   suspiciousEntries = suspicious,
                   ogDuplicateEntries = og\<rparr>))"

section \<open>The record store\<close>

text \<open>
  The handlers reach the store through \<open>storage\<close>. A call of
  \<open>deleteSandwichCollection\<close> returns a truthy value (\<open>Deleted\<close>), a falsy one
  (\<open>NotFound\<close>), or throws: \<open>Threw (Some m)\<close> for an \<open>Error\<close> with message \<open>m\<close>,
  \<open>Threw None\<close> for any other thrown value. Every call takes the store to a new state.
  \<open>getAllSandwichCollections\<close> returns the snapshot, or throws (\<open>None\<close>).
\<close>

datatype delete_result = Deleted | NotFound | Threw "string option"

record 's storage =
  getAllSandwichCollections :: "'s \<Rightarrow> collection list option"
  deleteSandwichCollection :: "int \<Rightarrow> 's \<Rightarrow> delete_result \<times> 's"

text \<open>
  What a handler leaves behind: its response, the \<open>deleteSandwichCollection\<close> calls it
  made, in order and each with its result, and the state of the store.
\<close>

record ('s, 'r) handled =
  response :: "http_error + 'r"
  calls :: "(int \<times> delete_result) list"
  store :: "'s"

definition errorMessage :: "string option \<Rightarrow> string" where
  "errorMessage e = (case e of Some m \<Rightarrow> m | None \<Rightarrow> ''Unknown error'')"

definition undefined_if_empty :: "string list \<Rightarrow> string list option" where
  "undefined_if_empty errs = (if length errs > 0 then Some (take 5 errs) else None)"

section \<open>The clean-duplicates handler\<close>

definition exact_candidates :: "(string \<Rightarrow> jsnum) \<Rightarrow> collection list \<Rightarrow> collection list" where
  "exact_candidates getTime collections =
     concat (map (\<lambda>(k, grp).
        if length grp > 1 then drop 1 (js_sort (newest_first getTime) grp) else [])
      (group_by duplicate_key collections))"

text \<open>
  The \<open>collectionsToDelete\<close> of each mode. A mode that is neither \<open>exact\<close> nor
  \<open>suspicious\<close> meets no branch and leaves the array empty. \<open>None\<close> is the TypeError
  of the suspicious filter on a \<open>null\<close> \<open>hostName\<close>.
\<close>

definition clean_candidates ::
  "(string \<Rightarrow> jsnum) \<Rightarrow> string \<Rightarrow> collection list \<Rightarrow> collection list option" where
  "clean_candidates getTime m collections =
     (if m = ''exact'' then Some (exact_candidates getTime collections)
      else if m = ''suspicious'' then host_filter suspicious_broad collections
      else Some [])"

text \<open>
  The deletion loop. Ids are integers, so \<open>Number(collection.id)\<close> is never \<open>NaN\<close> and
  the loop's \<open>continue\<close> is not taken. The arguments after the candidates are
  \<open>deletedCount\<close>, \<open>errors\<close>, the calls made so far and the store.
\<close>

fun clean_loop ::
  "'s storage \<Rightarrow> collection list \<Rightarrow> nat \<Rightarrow> string list \<Rightarrow> (int \<times> delete_result) list \<Rightarrow> 's
   \<Rightarrow> nat \<times> string list \<times> (int \<times> delete_result) list \<times> 's" where
  "clean_loop st [] deleted_n errs made s = (deleted_n, errs, made, s)"
| "clean_loop st (c # rest) deleted_n errs made s =
     (let (deleted, s') = deleteSandwichCollection st (cid c) s;
          made' = made @ [(cid c, deleted)]
      in case deleted of
           Deleted \<Rightarrow> clean_loop st rest (deleted_n + 1) errs made' s'
         | NotFound \<Rightarrow> clean_loop st rest deleted_n errs made' s'
         | Threw e \<Rightarrow>
             clean_loop st rest deleted_n
               (errs @ [''Failed to delete collection '' @ number_toString (cid c) @ '': '' @
                          errorMessage e])
               made' s')"

record clean_response =
  message :: string
  deletedCount :: nat
  totalFound :: nat
  errors :: "string list option"
  mode :: string

definition clean_failed :: "'s \<Rightarrow> ('s, clean_response) handled" where
  "clean_failed s =
     \<lparr>response = Inl (Status500 ''Failed to clean duplicate entries''), calls = [], store = s\<rparr>"

text \<open>
  \<open>body_mode\<close> is the \<open>mode\<close> of the request body, \<open>None\<close> when the body has none: the
  destructuring default makes it \<open>exact\<close>.
\<close>

definition clean_duplicates ::
  "(string \<Rightarrow> jsnum) \<Rightarrow> 's storage \<Rightarrow> string option \<Rightarrow> 's \<Rightarrow> ('s, clean_response) handled" where
  "clean_duplicates getTime st body_mode s =
     (let mode = (case body_mode of None \<Rightarrow> ''exact'' | Some m \<Rightarrow> m)
      in case getAllSandwichCollections st s of
           None \<Rightarrow> clean_failed s
         | Some collections \<Rightarrow>
             (case clean_candidates getTime mode collections of
                None \<Rightarrow> clean_failed s
              | Some collectionsToDelete \<Rightarrow>
                   (let sortedCollections = js_sort id_descending collectionsToDelete;
                        (deleted_n, errs, made, s') = clean_loop st sortedCollections 0 [] [] s
                    in \<lparr>response = Inr
                          \<lparr>message = ''Successfully cleaned '' @ number_toString (int deleted_n) @
                                      '' duplicate entries using '' @ mode @ '' mode'',
                           deletedCount = deleted_n,
                           totalFound = length collectionsToDelete,
                           errors = undefined_if_empty errs,
                           mode = mode\<rparr>,
                        calls = made, store = s'\<rparr>)))"

section \<open>The bulk delete handler\<close>

fun bulk_loop ::
  "'s storage \<Rightarrow> collection list \<Rightarrow> nat \<Rightarrow> (int \<times> delete_result) list \<Rightarrow> 's
   \<Rightarrow> nat \<times> (int \<times> delete_result) list \<times> 's" where
  "bulk_loop st [] deleted_n made s = (deleted_n, made, s)"
| "bulk_loop st (c # rest) deleted_n made s =
     (let (deleted, s') = deleteSandwichCollection st (cid c) s;
          made' = made @ [(cid c, deleted)]
      in case deleted of
           Deleted \<Rightarrow> bulk_loop st rest (deleted_n + 1) made' s'
         | NotFound \<Rightarrow> bulk_loop st rest deleted_n made' s'
         | Threw e \<Rightarrow> bulk_loop st rest deleted_n made' s')"

record bulk_response =
  bulk_message :: string
  bulk_deletedCount :: nat
  patterns :: "string list"

definition bulk_failed :: "'s \<Rightarrow> ('s, bulk_response) handled" where
  "bulk_failed s =
     \<lparr>response = Inl (Status500 ''Failed to delete duplicate entries''), calls = [], store = s\<rparr>"

definition bulk_delete :: "'s storage \<Rightarrow> 's \<Rightarrow> ('s, bulk_response) handled" where
  "bulk_delete st s =
     (case getAllSandwichCollections st s of
        None \<Rightarrow> bulk_failed s
      | Some collections \<Rightarrow>
          (case host_filter bulk_pattern collections of
             None \<Rightarrow> bulk_failed s
           | Some collectionsToDelete \<Rightarrow>
               (let sortedCollections = js_sort id_descending collectionsToDelete;
                    (deleted_n, made, s') = bulk_loop st sortedCollections 0 [] s
                in \<lparr>response = Inr
                      \<lparr>bulk_message = ''Successfully deleted '' @ number_toString (int deleted_n) @
                                       '' duplicate entries'',
                       bulk_deletedCount = deleted_n,
                       patterns = [''Loc *'', ''Group 1-8'']\<rparr>,
                    calls = made, store = s'\<rparr>)))"

section \<open>The batch-delete handler\<close>




section \<open>A store held in memory\<close>

text \<open>
  Modelled from the spec: the implementation of \<open>storage\<close> (\<open>../storage-wrapper\<close>) is not
  among the sources. The spec gives \<open>getAllSandwichCollections() -> CollectionRecord[]\<close>
  and \<open>deleteSandwichCollection(id) -> boolean\<close>, the latter reporting whether a record
  was deleted. Here the store is the list of its records; a delete removes the records
  with the given id and reports whether there was one.
\<close>

definition memory_storage :: "(collection list) storage" where
  "memory_storage =
     \<lparr>getAllSandwichCollections = (\<lambda>s. Some s),
      deleteSandwichCollection = (\<lambda>i s.
        if list_ex (\<lambda>c. cid c = i) s then (Deleted, filter (\<lambda>c. cid c \<noteq> i) s)
        else (NotFound, s))\<rparr>"

section \<open>Reading the call log\<close>

text \<open>
  What a single call in the log of a run amounts to: whether it deleted, whether it
  threw, and the messages that clean-duplicates and batch-delete write for it.
\<close>

definition was_deleted :: "int \<times> delete_result \<Rightarrow> bool" where
  "was_deleted call = (snd call = Deleted)"

definition did_throw :: "int \<times> delete_result \<Rightarrow> bool" where
  "did_throw call = (case snd call of Threw e \<Rightarrow> True | _ \<Rightarrow> False)"

definition clean_error_of :: "int \<times> delete_result \<Rightarrow> string list" where
  "clean_error_of call =
     (case snd call of
        Threw e \<Rightarrow> [''Failed to delete collection '' @ number_toString (fst call) @ '': '' @
                    errorMessage e]
      | _ \<Rightarrow> [])"


text \<open>
  What the store answers when the given ids are deleted one after the other, each
  delete starting from the state the one before left, and the state after the last:
  \<open>delete_answers\<close> pairs every id with the result of its own
  \<open>deleteSandwichCollection\<close> call, \<open>store_after\<close> is the final state.
\<close>

fun delete_answers :: "'s storage \<Rightarrow> int list \<Rightarrow> 's \<Rightarrow> (int \<times> delete_result) list" where
  "delete_answers st [] s = []"
| "delete_answers st (i # rest) s =
     (i, fst (deleteSandwichCollection st i s)) #
     delete_answers st rest (snd (deleteSandwichCollection st i s))"

fun store_after :: "'s storage \<Rightarrow> int list \<Rightarrow> 's \<Rightarrow> 's" where
  "store_after st [] s = s"
| "store_after st (i # rest) s = store_after st rest (snd (deleteSandwichCollection st i s))"

section \<open>Decimal text read back\<close>

text \<open>The number a string of decimal digits stands for; used to show that \<open>digits_of_nat\<close> is injective.\<close>

definition nat_of_digits :: "string \<Rightarrow> nat" where
  "nat_of_digits ds = foldl (\<lambda>a c. 10 * a + ((of_char c :: nat) - 48)) 0 ds"

section \<open>Sample data\<close>

text \<open>
  Concrete inputs for the theorems below. \<open>sample_getTime\<close> knows two ISO instants with
  their milliseconds since the epoch and takes every other text as an invalid date.
  \<open>failing_storage bad answer\<close> is the store in memory, except that a delete of the id
  \<open>bad\<close> changes nothing and gives \<open>answer\<close>.
\<close>

definition sample_getTime :: "string \<Rightarrow> jsnum" where
  "sample_getTime x =
     (if x = ''2021-01-05T10:00:00.000Z'' then Some 1609840800000
      else if x = ''2021-01-06T10:00:00.000Z'' then Some 1609927200000
      else None)"

definition failing_storage :: "int \<Rightarrow> delete_result \<Rightarrow> (collection list) storage" where
  "failing_storage bad answer =
     \<lparr>getAllSandwichCollections = (\<lambda>s. Some s),
      deleteSandwichCollection = (\<lambda>i s.
        if i = bad then (answer, s) else deleteSandwichCollection memory_storage i s)\<rparr>"

definition loc_record :: "int \<Rightarrow> collection" where
  "loc_record i =
     \<lparr>cid = i, hostName = Some ''Loc 4'', collectionDate = ''2021-01-05'',
      individualSandwiches = 20 + i, groupCollections = ''[]'',
      submittedAt = ''2021-01-05T10:00:00.000Z''\<rparr>"

definition plain_record :: "int \<Rightarrow> collection" where
  "plain_record i =
     \<lparr>cid = i, hostName = Some ''Dunwoody'', collectionDate = ''2021-01-05'',
      individualSandwiches = 40, groupCollections = ''[]'',
      submittedAt = ''2021-01-05T10:00:00.000Z''\<rparr>"

definition group_record :: "int \<Rightarrow> collection" where
  "group_record i =
     \<lparr>cid = i, hostName = Some ''Group 8 (north)'', collectionDate = ''2021-01-06'',
      individualSandwiches = 12, groupCollections = ''[]'',
      submittedAt = ''2021-01-06T10:00:00.000Z''\<rparr>"

definition dup_record :: "int \<Rightarrow> string \<Rightarrow> collection" where
  "dup_record i stamp =
     \<lparr>cid = i, hostName = Some ''Alpharetta'', collectionDate = ''2021-01-04'',
      individualSandwiches = 55, groupCollections = ''[]'', submittedAt = stamp\<rparr>"

definition troop_a :: collection where
  "troop_a =
     \<lparr>cid = 1, hostName = Some ''Troop-10'', collectionDate = ''2021-01-05'',
      individualSandwiches = 5, groupCollections = ''Star Club: 20'',
      submittedAt = ''2021-01-05T10:00:00.000Z''\<rparr>"

definition troop_b :: collection where
  "troop_b =
     \<lparr>cid = 2, hostName = Some ''Troop'', collectionDate = ''2021-01-05'',
      individualSandwiches = 10, groupCollections = ''5-Star Club: 20'',
      submittedAt = ''2021-01-06T10:00:00.000Z''\<rparr>"

definition og_record :: "int \<Rightarrow> string \<Rightarrow> int \<Rightarrow> collection" where
  "og_record i date n =
     \<lparr>cid = i, hostName = Some ''OG Sandwich Project'', collectionDate = date,
      individualSandwiches = n, groupCollections = ''[]'',
      submittedAt = ''2021-01-05T10:00:00.000Z''\<rparr>"

definition early_record :: "int \<Rightarrow> string option \<Rightarrow> string \<Rightarrow> int \<Rightarrow> collection" where
  "early_record i host date n =
     \<lparr>cid = i, hostName = host, collectionDate = date,
      individualSandwiches = n, groupCollections = ''[]'',
      submittedAt = ''2021-01-06T10:00:00.000Z''\<rparr>"

definition host_record :: "int \<Rightarrow> string \<Rightarrow> collection" where
  "host_record i name =
     \<lparr>cid = i, hostName = Some name, collectionDate = ''2021-01-07'',
      individualSandwiches = 30 + i, groupCollections = ''[]'',
      submittedAt = ''2021-01-06T10:00:00.000Z''\<rparr>"

section \<open>Sorting and grouping\<close>

lemma mset_sort_insert: "mset (sort_insert f x xs) = add_mset x (mset xs)"
  by (induction xs) auto

lemma mset_js_sort: "mset (js_sort f xs) = mset xs"
  by (induction xs) (simp_all add: js_sort_def mset_sort_insert)

lemma set_js_sort: "set (js_sort f xs) = set xs"
  by (metis mset_js_sort set_mset_mset)

lemma length_js_sort: "length (js_sort f xs) = length xs"
  by (metis mset_js_sort size_mset)

lemma js_sort_Nil: "js_sort f [] = []"
  by (simp add: js_sort_def)

lemma js_sort_Cons: "js_sort f (x # xs) = sort_insert f x (js_sort f xs)"
  by (simp add: js_sort_def)

lemma js_sort_eq_Nil: "js_sort f xs = [] \<longleftrightarrow> xs = []"
  by (metis length_js_sort length_0_conv)

lemma map_of_map_push:
  "map_of (map_push k v m) =
     (map_of m)(k \<mapsto> (case map_of m k of None \<Rightarrow> [v] | Some vs \<Rightarrow> vs @ [v]))"
  by (induction m) (auto simp: fun_eq_iff)

lemma keys_map_push:
  "map fst (map_push k v m) = (if k \<in> fst ` set m then map fst m else map fst m @ [k])"
  by (induction m) (force simp: image_iff)+

lemma group_by_snoc: "group_by key (cs @ [c]) = map_push (key c) c (group_by key cs)"
  by (simp add: group_by_def)

lemma group_by_Nil: "group_by key [] = []"
  by (simp add: group_by_def)

lemma keys_group_by: "set (map fst (group_by key cs)) = key ` set cs"
proof (induction cs rule: rev_induct)
  case Nil
  show ?case by (simp add: group_by_Nil)
next
  case (snoc c cs)
  then show ?case by (auto simp: group_by_snoc keys_map_push)
qed

lemma distinct_keys_group_by: "distinct (map fst (group_by key cs))"
proof (induction cs rule: rev_induct)
  case Nil
  show ?case by (simp add: group_by_Nil)
next
  case (snoc c cs)
  then show ?case by (auto simp: group_by_snoc keys_map_push)
qed

lemma map_of_group_by:
  "map_of (group_by key cs) k =
     (if k \<in> key ` set cs then Some (filter (\<lambda>c. key c = k) cs) else None)"
proof (induction cs rule: rev_induct)
  case Nil
  show ?case by (simp add: group_by_Nil)
next
  case (snoc c cs)
  then show ?case
    by (auto simp: group_by_snoc map_of_map_push filter_empty_conv image_iff split: if_splits)
       metis+
qed

lemma group_by_member:
  "(k, g) \<in> set (group_by key cs) \<longleftrightarrow> k \<in> key ` set cs \<and> g = filter (\<lambda>c. key c = k) cs"
proof -
  have "(k, g) \<in> set (group_by key cs) \<longleftrightarrow> map_of (group_by key cs) k = Some g"
    using distinct_keys_group_by [of key cs] by (metis map_of_eq_Some_iff)
  then show ?thesis by (auto simp: map_of_group_by)
qed

section \<open>The deletion loop of each handler\<close>

lemma was_deleted_pair: "was_deleted (i, d) = (d = Deleted)"
  by (simp add: was_deleted_def)

lemma clean_error_of_pair:
  "clean_error_of (i, Deleted) = []"
  "clean_error_of (i, NotFound) = []"
  "clean_error_of (i, Threw e) =
     [''Failed to delete collection '' @ number_toString i @ '': '' @ errorMessage e]"
  by (simp_all add: clean_error_of_def)


lemma did_throw_pair:
  "did_throw (i, Deleted) = False" "did_throw (i, NotFound) = False" "did_throw (i, Threw e) = True"
  by (simp_all add: did_throw_def)

lemma errors_from_throws:
  "concat (map clean_error_of T) = concat (map clean_error_of (filter did_throw T))"
proof (induction T)
  case Nil
  show ?case by simp
next
  case (Cons call T)
  obtain i d where "call = (i, d)" by (cases call)
  with Cons show ?case by (cases d) (simp_all add: clean_error_of_pair did_throw_pair)
qed


lemma take_5_bound: "undefined_if_empty es = Some shown \<Longrightarrow> length shown \<le> 5 \<and> shown = take 5 es"
  by (auto simp: undefined_if_empty_def split: if_splits)


lemma map_fst_delete_answers: "map fst (delete_answers st ids s) = ids"
  by (induction ids arbitrary: s) simp_all

lemma length_delete_answers: "length (delete_answers st ids s) = length ids"
  by (metis map_fst_delete_answers length_map)

lemma delete_answers_nth:
  "k < length ids \<Longrightarrow>
     delete_answers st ids s ! k =
       (ids ! k, fst (deleteSandwichCollection st (ids ! k) (store_after st (take k ids) s)))"
proof (induction ids arbitrary: s k)
  case Nil
  then show ?case by simp
next
  case (Cons i ids)
  then show ?case by (cases k) simp_all
qed

lemma clean_loop_answers:
  "clean_loop st cs n errs made s =
     (n + length (filter was_deleted (delete_answers st (map cid cs) s)),
      errs @ concat (map clean_error_of (delete_answers st (map cid cs) s)),
      made @ delete_answers st (map cid cs) s,
      store_after st (map cid cs) s)"
proof (induction cs arbitrary: n errs made s)
  case Nil
  show ?case by simp
next
  case (Cons c cs)
  obtain d s1 where del: "deleteSandwichCollection st (cid c) s = (d, s1)"
    by (cases "deleteSandwichCollection st (cid c) s")
  show ?case
    using del by (cases d) (simp_all add: Cons.IH was_deleted_pair clean_error_of_pair)
qed

lemma bulk_loop_answers:
  "bulk_loop st cs n made s =
     (n + length (filter was_deleted (delete_answers st (map cid cs) s)),
      made @ delete_answers st (map cid cs) s,
      store_after st (map cid cs) s)"
proof (induction cs arbitrary: n made s)
  case Nil
  show ?case by simp
next
  case (Cons c cs)
  obtain d s1 where del: "deleteSandwichCollection st (cid c) s = (d, s1)"
    by (cases "deleteSandwichCollection st (cid c) s")
  show ?case
    using del by (cases d) (simp_all add: Cons.IH was_deleted_pair)
qed


lemma clean_duplicates_answers:
  assumes "getAllSandwichCollections st s = Some cs"
      and "clean_candidates getTime m cs = Some cands"
  shows "clean_duplicates getTime st (Some m) s =
           \<lparr>response = Inr
              \<lparr>message = ''Successfully cleaned '' @
                 number_toString (int (length (filter was_deleted
                   (delete_answers st (map cid (js_sort id_descending cands)) s)))) @
                 '' duplicate entries using '' @ m @ '' mode'',
               deletedCount = length (filter was_deleted
                   (delete_answers st (map cid (js_sort id_descending cands)) s)),
               totalFound = length cands,
               errors = undefined_if_empty (concat (map clean_error_of
                   (delete_answers st (map cid (js_sort id_descending cands)) s))),
               mode = m\<rparr>,
            calls = delete_answers st (map cid (js_sort id_descending cands)) s,
            store = store_after st (map cid (js_sort id_descending cands)) s\<rparr>"
  using assms by (simp add: clean_duplicates_def clean_loop_answers Let_def)


lemma bulk_delete_answers:
  assumes "getAllSandwichCollections st s = Some cs"
      and "\<not> list_ex (\<lambda>c. hostName c = None) cs"
  shows "bulk_delete st s =
           \<lparr>response = Inr
              \<lparr>bulk_message = ''Successfully deleted '' @
                 number_toString (int (length (filter was_deleted
                   (delete_answers st
                      (map cid (js_sort id_descending (filter (host_matches bulk_pattern) cs))) s)))) @
                 '' duplicate entries'',
               bulk_deletedCount = length (filter was_deleted
                   (delete_answers st
                      (map cid (js_sort id_descending (filter (host_matches bulk_pattern) cs))) s)),
               patterns = [''Loc *'', ''Group 1-8'']\<rparr>,
            calls = delete_answers st
                      (map cid (js_sort id_descending (filter (host_matches bulk_pattern) cs))) s,
            store = store_after st
                      (map cid (js_sort id_descending (filter (host_matches bulk_pattern) cs))) s\<rparr>"
  using assms by (simp add: bulk_delete_def host_filter_def bulk_loop_answers Let_def)



lemma digits_of_nat_0: "digits_of_nat 0 = ''0''"
  by code_simp

lemma number_toString_0: "number_toString 0 = ''0''"
  by (simp add: number_toString_def digits_of_nat_0)

text \<open>
  C8. In clean-duplicates one \<open>deleteSandwichCollection\<close> call is made per candidate,
  \<open>deletedCount\<close> counts exactly the calls for which the store returned a truthy value,
  \<open>totalFound\<close> counts every candidate, and the error list holds the messages of the
  calls that threw only: a call for which the store returned a falsy value adds
  nothing to either.
\<close>

theorem clean_counts_truthy_deletes:
  fixes st :: "'s storage"
  assumes "getAllSandwichCollections st s = Some cs"
      and "clean_candidates getTime m cs = Some cands"
  shows "(let R = clean_duplicates getTime st (Some m) s;
              attempted = map cid (js_sort id_descending cands);
              answers = delete_answers st attempted s
          in calls R = answers \<and>
             store R = store_after st attempted s \<and>
             length answers = length cands \<and>
             (\<exists>resp. response R = Inr resp \<and>
               totalFound resp = length cands \<and>
               deletedCount resp = length (filter was_deleted answers) \<and>
               errors resp =
                 undefined_if_empty (concat (map clean_error_of (filter did_throw answers)))))"
proof -
  have len: "length (delete_answers st (map cid (js_sort id_descending cands)) s) = length cands"
    by (simp add: length_delete_answers length_js_sort)
  show ?thesis
    unfolding Let_def clean_duplicates_answers [OF assms]
    using len errors_from_throws [of "delete_answers st (map cid (js_sort id_descending cands)) s"]
    by simp
qed

theorem clean_counts_truthy_deletes_witness:
  "getAllSandwichCollections (failing_storage 2 NotFound) [loc_record 1, loc_record 2, loc_record 3] =
     Some [loc_record 1, loc_record 2, loc_record 3] \<and>
   clean_candidates sample_getTime ''suspicious'' [loc_record 1, loc_record 2, loc_record 3] =
     Some [loc_record 1, loc_record 2, loc_record 3] \<and>
   delete_answers (failing_storage 2 NotFound)
       (map cid (js_sort id_descending [loc_record 1, loc_record 2, loc_record 3]))
       [loc_record 1, loc_record 2, loc_record 3] =
     [(3, Deleted), (2, NotFound), (1, Deleted)] \<and>
   clean_duplicates sample_getTime (failing_storage 2 NotFound) (Some ''suspicious'')
       [loc_record 1, loc_record 2, loc_record 3] =
     \<lparr>response = Inr
        \<lparr>message = ''Successfully cleaned 2 duplicate entries using suspicious mode'',
         deletedCount = 2, totalFound = 3, errors = None, mode = ''suspicious''\<rparr>,
      calls = [(3, Deleted), (2, NotFound), (1, Deleted)], store = [loc_record 2]\<rparr>"
proof -
  let ?st = "failing_storage 2 NotFound"
  let ?cs = "[loc_record 1, loc_record 2, loc_record 3]"
  have h1: "getAllSandwichCollections ?st ?cs = Some ?cs"
    by (simp add: failing_storage_def)
  have h2: "clean_candidates sample_getTime ''suspicious'' ?cs = Some ?cs"
    by code_simp
  have a: "delete_answers ?st (map cid (js_sort id_descending ?cs)) ?cs =
     [(3, Deleted), (2, NotFound), (1, Deleted)]"
    by code_simp
  have e: "clean_duplicates sample_getTime ?st (Some ''suspicious'') ?cs =
     \<lparr>response = Inr
        \<lparr>message = ''Successfully cleaned 2 duplicate entries using suspicious mode'',
         deletedCount = 2, totalFound = 3, errors = None, mode = ''suspicious''\<rparr>,
      calls = [(3, Deleted), (2, NotFound), (1, Deleted)], store = [loc_record 2]\<rparr>"
    by code_simp
  show ?thesis
    using clean_counts_truthy_deletes [OF h1 h2] h1 h2 a e by simp
qed

text \<open>
  C10. A mode that is neither \<open>exact\<close> nor \<open>suspicious\<close> makes clean-duplicates call no
  delete, leave the store as it was, and answer with \<open>deletedCount = 0\<close>,
  \<open>totalFound = 0\<close>, no \<open>errors\<close> and the mode it was given.
\<close>

theorem clean_unknown_mode_noop:
  fixes st :: "'s storage"
  assumes "getAllSandwichCollections st s = Some cs"
      and "m \<noteq> ''exact''" and "m \<noteq> ''suspicious''"
  shows "clean_duplicates getTime st (Some m) s =
           \<lparr>response = Inr
              \<lparr>message = ''Successfully cleaned 0 duplicate entries using '' @ m @ '' mode'',
               deletedCount = 0, totalFound = 0, errors = None, mode = m\<rparr>,
            calls = [], store = s\<rparr>"
  using assms
  by (simp add: clean_duplicates_def clean_candidates_def js_sort_Nil undefined_if_empty_def
        number_toString_0)

theorem clean_unknown_mode_noop_witness:
  "getAllSandwichCollections memory_storage [loc_record 1, plain_record 2, plain_record 3] =
     Some [loc_record 1, plain_record 2, plain_record 3] \<and>
   ''og-duplicates'' \<noteq> ''exact'' \<and> ''og-duplicates'' \<noteq> ''suspicious'' \<and>
   clean_duplicates sample_getTime memory_storage (Some ''og-duplicates'')
       [loc_record 1, plain_record 2, plain_record 3] =
     \<lparr>response = Inr
        \<lparr>message = ''Successfully cleaned 0 duplicate entries using og-duplicates mode'',
         deletedCount = 0, totalFound = 0, errors = None, mode = ''og-duplicates''\<rparr>,
      calls = [], store = [loc_record 1, plain_record 2, plain_record 3]\<rparr>"
proof -
  have h1: "getAllSandwichCollections memory_storage [loc_record 1, plain_record 2, plain_record 3] =
     Some [loc_record 1, plain_record 2, plain_record 3]"
    by (simp add: memory_storage_def)
  have h2: "''og-duplicates'' \<noteq> ''exact''" by simp
  have h3: "''og-duplicates'' \<noteq> ''suspicious''" by simp
  show ?thesis
    using clean_unknown_mode_noop [OF h1 h2 h3, of sample_getTime] h1 by simp
qed

section \<open>The bulk delete and the suspicious host names\<close>

lemma startsWith_iff: "startsWith s p \<longleftrightarrow> (\<exists>rest. s = p @ rest)"
  by (induction s p rule: startsWith.induct) auto

lemma match_Group_1_8_iff:
  "match_Group_1_8 h \<longleftrightarrow> (\<exists>d rest. h = ''Group '' @ d # rest \<and> d \<in> set ''12345678'')"
proof
  assume "match_Group_1_8 h"
  then obtain r where r: "h = ''Group '' @ r" and c: "(case drop 6 h of [] \<Rightarrow> False | d # _ \<Rightarrow> d \<in> set ''12345678'')"
    unfolding match_Group_1_8_def startsWith_iff by blast
  from r have "drop 6 h = r" by simp
  with c obtain d rest where "r = d # rest" "d \<in> set ''12345678''"
    by (cases r) auto
  with r show "\<exists>d rest. h = ''Group '' @ d # rest \<and> d \<in> set ''12345678''" by blast
next
  assume "\<exists>d rest. h = ''Group '' @ d # rest \<and> d \<in> set ''12345678''"
  then obtain d rest where h: "h = ''Group '' @ d # rest" and d: "d \<in> set ''12345678''" by blast
  have "startsWith h ''Group ''" unfolding startsWith_iff using h by blast
  moreover have "drop 6 h = d # rest" using h by simp
  ultimately show "match_Group_1_8 h" using d by (simp add: match_Group_1_8_def)
qed

text \<open>
  C9. The bulk delete calls \<open>deleteSandwichCollection\<close> on exactly the records whose
  \<open>hostName\<close> starts with \<open>Loc \<close> or with \<open>Group \<close> followed by a digit from 1 to 8
  (case-sensitive, nothing required after the digit), in descending id order and each
  on the state the call before left, whatever the store answers; its \<open>deletedCount\<close>
  is the number of those calls for which the store returned a truthy value.
\<close>

theorem bulk_delete_selects_by_pattern:
  fixes st :: "'s storage"
  assumes "getAllSandwichCollections st s = Some cs"
      and "\<not> list_ex (\<lambda>c. hostName c = None) cs"
  shows "(let R = bulk_delete st s;
              selected = filter (host_matches bulk_pattern) cs;
              attempted = map cid (js_sort id_descending selected);
              answers = delete_answers st attempted s
          in calls R = answers \<and>
             store R = store_after st attempted s \<and>
             map fst (calls R) = attempted \<and>
             mset attempted = mset (map cid selected) \<and>
             (\<exists>resp. response R = Inr resp \<and>
               bulk_deletedCount resp = length (filter was_deleted answers))) \<and>
         host_matches bulk_pattern c =
           (\<exists>h. hostName c = Some h \<and>
              ((\<exists>rest. h = ''Loc '' @ rest) \<or>
               (\<exists>d rest. h = ''Group '' @ d # rest \<and> d \<in> set ''12345678'')))"
proof -
  have m: "mset (map cid (js_sort id_descending (filter (host_matches bulk_pattern) cs))) =
           mset (map cid (filter (host_matches bulk_pattern) cs))"
    by (metis mset_js_sort mset_map)
  have p: "\<And>h. bulk_pattern h =
           ((\<exists>rest. h = ''Loc '' @ rest) \<or>
            (\<exists>d rest. h = ''Group '' @ d # rest \<and> d \<in> set ''12345678''))"
    unfolding bulk_pattern_def startsWith_iff match_Group_1_8_iff by blast
  have q: "host_matches bulk_pattern c =
           (\<exists>h. hostName c = Some h \<and>
              ((\<exists>rest. h = ''Loc '' @ rest) \<or>
               (\<exists>d rest. h = ''Group '' @ d # rest \<and> d \<in> set ''12345678'')))"
    by (cases "hostName c") (simp_all add: host_matches_def p)
  show ?thesis
    unfolding Let_def bulk_delete_answers [OF assms]
    using m q by (simp add: map_fst_delete_answers)
qed

theorem bulk_delete_selects_by_pattern_witness:
  "getAllSandwichCollections (failing_storage 3 (Threw None))
       [loc_record 1, plain_record 2, group_record 3, loc_record 5] =
     Some [loc_record 1, plain_record 2, group_record 3, loc_record 5] \<and>
   \<not> list_ex (\<lambda>c. hostName c = None) [loc_record 1, plain_record 2, group_record 3, loc_record 5] \<and>
   filter (host_matches bulk_pattern) [loc_record 1, plain_record 2, group_record 3, loc_record 5] =
     [loc_record 1, group_record 3, loc_record 5] \<and>
   bulk_delete (failing_storage 3 (Threw None))
       [loc_record 1, plain_record 2, group_record 3, loc_record 5] =
     \<lparr>response = Inr
        \<lparr>bulk_message = ''Successfully deleted 2 duplicate entries'',
         bulk_deletedCount = 2, patterns = [''Loc *'', ''Group 1-8'']\<rparr>,
      calls = [(5, Deleted), (3, Threw None), (1, Deleted)],
      store = [plain_record 2, group_record 3]\<rparr> \<and>
   host_matches bulk_pattern (host_record 4 ''Group 8 (north)'') \<and>
   \<not> host_matches bulk_pattern (host_record 4 ''Group 9'') \<and>
   \<not> host_matches bulk_pattern (host_record 4 ''loc 4'')"
proof -
  let ?st = "failing_storage 3 (Threw None)"
  let ?cs = "[loc_record 1, plain_record 2, group_record 3, loc_record 5]"
  have h1: "getAllSandwichCollections ?st ?cs = Some ?cs"
    by (simp add: failing_storage_def)
  have h2: "\<not> list_ex (\<lambda>c. hostName c = None) ?cs"
    by (simp add: loc_record_def plain_record_def group_record_def)
  have f: "filter (host_matches bulk_pattern) ?cs = [loc_record 1, group_record 3, loc_record 5]"
    by code_simp
  have e: "bulk_delete ?st ?cs =
     \<lparr>response = Inr
        \<lparr>bulk_message = ''Successfully deleted 2 duplicate entries'',
         bulk_deletedCount = 2, patterns = [''Loc *'', ''Group 1-8'']\<rparr>,
      calls = [(5, Deleted), (3, Threw None), (1, Deleted)],
      store = [plain_record 2, group_record 3]\<rparr>"
    by code_simp
  have p: "host_matches bulk_pattern (host_record 4 ''Group 8 (north)'') \<and>
           \<not> host_matches bulk_pattern (host_record 4 ''Group 9'') \<and>
           \<not> host_matches bulk_pattern (host_record 4 ''loc 4'')"
    by code_simp
  show ?thesis
    using bulk_delete_selects_by_pattern [OF h1 h2, of "host_record 4 ''Group 8 (north)''"] h1 h2 f e p
    by simp
qed

lemma analysis_suspicious:
  "analyze_duplicates getTime cs = Inr a \<Longrightarrow>
     suspiciousEntries a = filter (host_matches suspicious_narrow) cs \<and>
     suspiciousPatterns a = length (filter (host_matches suspicious_narrow) cs) \<and>
     \<not> list_ex (\<lambda>c. hostName c = None) cs"
  by (auto simp: analyze_duplicates_def host_filter_def Let_def split: option.splits if_splits)

lemma suspicious_broad_iff:
  "suspicious_broad h = (suspicious_narrow h \<or> match_group_number (toLowerCase h))"
  by (auto simp: suspicious_broad_def suspicious_narrow_def Let_def)

lemma host_matches_broad_iff:
  "host_matches suspicious_broad c =
     (host_matches suspicious_narrow c \<or> host_matches (\<lambda>h. match_group_number (toLowerCase h)) c)"
  by (cases "hostName c") (simp_all add: host_matches_def suspicious_broad_iff)

text \<open>
  C5. On a snapshot that analyze-duplicates can analyse, the records that
  clean-duplicates deletes in suspicious mode are exactly the records that
  analyze-duplicates reports in \<open>suspiciousEntries\<close> together with those whose
  lower-cased \<open>hostName\<close> matches \<^verbatim>\<open>^group \d+$\<close>: these are the candidates of the mode,
  and the delete calls of the handler are the calls on them in descending id order.
  A record with \<open>hostName\<close> \<open>Group 8\<close> is deleted by the clean mode and not reported
  by the analysis; one with \<open>LOC downtown\<close> is both reported and deleted.
\<close>

theorem broad_classifier_extends_narrow:
  fixes st :: "'s storage"
  assumes "analyze_duplicates getTime cs = Inr a"
      and "getAllSandwichCollections st s = Some cs"
  shows "suspiciousEntries a = filter (host_matches suspicious_narrow) cs \<and>
         clean_candidates getTime ''suspicious'' cs =
           Some (filter (\<lambda>c. c \<in> set (suspiciousEntries a) \<or>
                            host_matches (\<lambda>h. match_group_number (toLowerCase h)) c) cs) \<and>
         calls (clean_duplicates getTime st (Some ''suspicious'') s) =
           delete_answers st
             (map cid (js_sort id_descending
                (filter (\<lambda>c. c \<in> set (suspiciousEntries a) \<or>
                              host_matches (\<lambda>h. match_group_number (toLowerCase h)) c) cs))) s \<and>
         suspicious_broad h = (suspicious_narrow h \<or> match_group_number (toLowerCase h)) \<and>
         match_group_number x = (\<exists>ds. x = ''group '' @ ds \<and> ds \<noteq> [] \<and> list_all isDigit ds) \<and>
         analyze_duplicates sample_getTime
             [host_record 1 ''Group 8'', host_record 2 ''LOC downtown'', host_record 3 ''Dunwoody''] =
           Inr \<lparr>totalCollections = 3, duplicateGroups = 0, totalDuplicateEntries = 0,
                suspiciousPatterns = 1, ogDuplicates = 0, duplicates = [],
                suspiciousEntries = [host_record 2 ''LOC downtown''],
                ogDuplicateEntries = []\<rparr> \<and>
         clean_duplicates sample_getTime memory_storage (Some ''suspicious'')
             [host_record 1 ''Group 8'', host_record 2 ''LOC downtown'', host_record 3 ''Dunwoody''] =
           \<lparr>response = Inr
              \<lparr>message = ''Successfully cleaned 2 duplicate entries using suspicious mode'',
               deletedCount = 2, totalFound = 2, errors = None, mode = ''suspicious''\<rparr>,
            calls = [(2, Deleted), (1, Deleted)],
            store = [host_record 3 ''Dunwoody'']\<rparr>"
proof -
  from analysis_suspicious [OF assms(1)]
  have sus: "suspiciousEntries a = filter (host_matches suspicious_narrow) cs"
    and nonull: "\<not> list_ex (\<lambda>c. hostName c = None) cs"
    by simp_all
  have same: "filter (\<lambda>c. c \<in> set (suspiciousEntries a) \<or>
                         host_matches (\<lambda>h. match_group_number (toLowerCase h)) c) cs =
              filter (host_matches suspicious_broad) cs"
    unfolding sus by (rule filter_cong) (auto simp: host_matches_broad_iff)
  have cand: "clean_candidates getTime ''suspicious'' cs =
           Some (filter (\<lambda>c. c \<in> set (suspiciousEntries a) \<or>
                            host_matches (\<lambda>h. match_group_number (toLowerCase h)) c) cs)"
    unfolding same using nonull by (simp add: clean_candidates_def host_filter_def)
  have run: "calls (clean_duplicates getTime st (Some ''suspicious'') s) =
           delete_answers st
             (map cid (js_sort id_descending
                (filter (\<lambda>c. c \<in> set (suspiciousEntries a) \<or>
                              host_matches (\<lambda>h. match_group_number (toLowerCase h)) c) cs))) s"
    unfolding clean_duplicates_answers [OF assms(2) cand] by simp
  have c: "match_group_number x = (\<exists>ds. x = ''group '' @ ds \<and> ds \<noteq> [] \<and> list_all isDigit ds)"
    unfolding match_group_number_def startsWith_iff by auto
  have e1: "analyze_duplicates sample_getTime
             [host_record 1 ''Group 8'', host_record 2 ''LOC downtown'', host_record 3 ''Dunwoody''] =
           Inr \<lparr>totalCollections = 3, duplicateGroups = 0, totalDuplicateEntries = 0,
                suspiciousPatterns = 1, ogDuplicates = 0, duplicates = [],
                suspiciousEntries = [host_record 2 ''LOC downtown''],
                ogDuplicateEntries = []\<rparr>"
    by code_simp
  have e2: "clean_duplicates sample_getTime memory_storage (Some ''suspicious'')
             [host_record 1 ''Group 8'', host_record 2 ''LOC downtown'', host_record 3 ''Dunwoody''] =
           \<lparr>response = Inr
              \<lparr>message = ''Successfully cleaned 2 duplicate entries using suspicious mode'',
               deletedCount = 2, totalFound = 2, errors = None, mode = ''suspicious''\<rparr>,
            calls = [(2, Deleted), (1, Deleted)],
            store = [host_record 3 ''Dunwoody'']\<rparr>"
    by code_simp
  show ?thesis
    using sus cand run suspicious_broad_iff [of h] c e1 e2 by blast
qed

theorem broad_classifier_extends_narrow_witness:
  "analyze_duplicates sample_getTime
     [host_record 1 ''Group 12'', host_record 2 ''group 3-4'', host_record 3 ''Dunwoody'',
      host_record 4 ''Test kitchen''] =
     Inr \<lparr>totalCollections = 4, duplicateGroups = 0, totalDuplicateEntries = 0,
          suspiciousPatterns = 2, ogDuplicates = 0, duplicates = [],
          suspiciousEntries = [host_record 2 ''group 3-4'', host_record 4 ''Test kitchen''],
          ogDuplicateEntries = []\<rparr> \<and>
   getAllSandwichCollections memory_storage
     [host_record 1 ''Group 12'', host_record 2 ''group 3-4'', host_record 3 ''Dunwoody'',
      host_record 4 ''Test kitchen''] =
     Some [host_record 1 ''Group 12'', host_record 2 ''group 3-4'', host_record 3 ''Dunwoody'',
           host_record 4 ''Test kitchen''] \<and>
   clean_candidates sample_getTime ''suspicious''
     [host_record 1 ''Group 12'', host_record 2 ''group 3-4'', host_record 3 ''Dunwoody'',
      host_record 4 ''Test kitchen''] =
     Some [host_record 1 ''Group 12'', host_record 2 ''group 3-4'', host_record 4 ''Test kitchen''] \<and>
   calls (clean_duplicates sample_getTime memory_storage (Some ''suspicious'')
     [host_record 1 ''Group 12'', host_record 2 ''group 3-4'', host_record 3 ''Dunwoody'',
      host_record 4 ''Test kitchen'']) =
     [(4, Deleted), (2, Deleted), (1, Deleted)] \<and>
   store (clean_duplicates sample_getTime memory_storage (Some ''suspicious'')
     [host_record 1 ''Group 12'', host_record 2 ''group 3-4'', host_record 3 ''Dunwoody'',
      host_record 4 ''Test kitchen'']) =
     [host_record 3 ''Dunwoody'']"
proof -
  let ?cs = "[host_record 1 ''Group 12'', host_record 2 ''group 3-4'', host_record 3 ''Dunwoody'',
      host_record 4 ''Test kitchen'']"
  let ?a = "\<lparr>totalCollections = 4, duplicateGroups = 0, totalDuplicateEntries = 0,
          suspiciousPatterns = 2, ogDuplicates = 0, duplicates = [],
          suspiciousEntries = [host_record 2 ''group 3-4'', host_record 4 ''Test kitchen''],
          ogDuplicateEntries = []\<rparr>"
  have h1: "analyze_duplicates sample_getTime ?cs = Inr ?a" by code_simp
  have h2: "getAllSandwichCollections memory_storage ?cs = Some ?cs"
    by (simp add: memory_storage_def)
  have c: "clean_candidates sample_getTime ''suspicious'' ?cs =
     Some [host_record 1 ''Group 12'', host_record 2 ''group 3-4'', host_record 4 ''Test kitchen'']"
    by code_simp
  have k: "calls (clean_duplicates sample_getTime memory_storage (Some ''suspicious'') ?cs) =
     [(4, Deleted), (2, Deleted), (1, Deleted)]"
    by code_simp
  have s: "store (clean_duplicates sample_getTime memory_storage (Some ''suspicious'') ?cs) =
     [host_record 3 ''Dunwoody'']"
    by code_simp
  show ?thesis
    using broad_classifier_extends_narrow [OF h1 h2] h1 h2 c k s by simp
qed

section \<open>Keeping the newest record\<close>



lemma SortCompare_unparsed:
  assumes "getTime (submittedAt a) = None \<or> getTime (submittedAt b) = None"
  shows "SortCompare (newest_first getTime) a b = 0"
  using assms by (auto simp: SortCompare_def newest_first_def js_minus_def split: option.splits)










text \<open>
  C4 (as amended). A \<open>submittedAt\<close> that does not parse is not ranked as epoch 0: the
  comparator gives \<open>NaN\<close> against every record, which the sort takes as a tie. In a
  two-record group in which either timestamp fails to parse the first-scanned record
  is kept and the other is deleted; a group none of whose timestamps parse keeps its
  scan order.
\<close>

theorem unparsable_submittedAt_is_a_tie:
  assumes "getTime (submittedAt a) = None \<or> getTime (submittedAt b) = None"
      and "list_all (\<lambda>c. getTime (submittedAt c) = None) g"
  shows "SortCompare (newest_first getTime) a b = 0 \<and>
         js_sort (newest_first getTime) [a, b] = [a, b] \<and>
         keepNewest (duplicate_report getTime [a, b]) = Some a \<and>
         toDelete (duplicate_report getTime [a, b]) = [b] \<and>
         js_sort (newest_first getTime) g = g"
proof -
  have tie: "SortCompare (newest_first getTime) a b = 0"
    by (rule SortCompare_unparsed [OF assms(1)])
  then have two: "js_sort (newest_first getTime) [a, b] = [a, b]"
    by (simp add: js_sort_def)
  have same: "js_sort (newest_first getTime) g = g"
    using assms(2)
  proof (induction g)
    case Nil
    show ?case by (simp add: js_sort_Nil)
  next
    case (Cons x xs)
    then have "js_sort (newest_first getTime) (x # xs) = sort_insert (newest_first getTime) x xs"
      by (simp add: js_sort_Cons)
    also have "\<dots> = x # xs"
      using Cons.prems by (cases xs) (simp_all add: SortCompare_unparsed)
    finally show ?case .
  qed
  show ?thesis
    using tie two same by (simp add: duplicate_report_def first_elem_def Let_def)
qed

theorem unparsable_submittedAt_is_a_tie_witness:
  "(sample_getTime (submittedAt (dup_record 5 ''yesterday'')) = None \<or>
    sample_getTime (submittedAt (dup_record 6 ''2021-01-06T10:00:00.000Z'')) = None) \<and>
   list_all (\<lambda>c. sample_getTime (submittedAt c) = None)
     [dup_record 7 ''n/a'', dup_record 8 ''yesterday'', dup_record 9 ''soon''] \<and>
   js_sort (newest_first sample_getTime)
     [dup_record 5 ''yesterday'', dup_record 6 ''2021-01-06T10:00:00.000Z''] =
     [dup_record 5 ''yesterday'', dup_record 6 ''2021-01-06T10:00:00.000Z''] \<and>
   js_sort (newest_first sample_getTime)
     [dup_record 7 ''n/a'', dup_record 8 ''yesterday'', dup_record 9 ''soon''] =
     [dup_record 7 ''n/a'', dup_record 8 ''yesterday'', dup_record 9 ''soon'']"
proof -
  have h1: "sample_getTime (submittedAt (dup_record 5 ''yesterday'')) = None \<or>
    sample_getTime (submittedAt (dup_record 6 ''2021-01-06T10:00:00.000Z'')) = None"
    by code_simp
  have h2: "list_all (\<lambda>c. sample_getTime (submittedAt c) = None)
     [dup_record 7 ''n/a'', dup_record 8 ''yesterday'', dup_record 9 ''soon'']"
    by code_simp
  show ?thesis
    using unparsable_submittedAt_is_a_tie [OF h1 h2] h1 h2 by simp
qed

theorem unparsable_submittedAt_counterexample:
  "sample_getTime (submittedAt (dup_record 11 ''pending'')) = None \<and>
   sample_getTime (submittedAt (dup_record 12 ''2021-01-05T10:00:00.000Z'')) = Some 1609840800000 \<and>
   SortCompare (newest_first sample_getTime)
     (dup_record 11 ''pending'') (dup_record 12 ''2021-01-05T10:00:00.000Z'') = 0 \<and>
   exact_candidates sample_getTime
     [dup_record 11 ''pending'', dup_record 12 ''2021-01-05T10:00:00.000Z''] =
     [dup_record 12 ''2021-01-05T10:00:00.000Z''] \<and>
   store (clean_duplicates sample_getTime memory_storage (Some ''exact'')
     [dup_record 11 ''pending'', dup_record 12 ''2021-01-05T10:00:00.000Z'']) =
     [dup_record 11 ''pending'']"
  by code_simp

section \<open>Exact-mode cleanup on the store in memory\<close>

lemma distinct_of_submultiset:
  assumes "mset xs \<subseteq># mset ys" and "distinct ys"
  shows "distinct xs"
proof -
  have "\<And>a. count (mset xs) a \<le> 1"
  proof -
    fix a
    have "count (mset xs) a \<le> count (mset ys) a"
      using assms(1) by (rule mset_subset_eq_count)
    also have "\<dots> \<le> 1"
      using assms(2) by (simp add: distinct_count_atmost_1)
    finally show "count (mset xs) a \<le> 1" .
  qed
  then show ?thesis
    by (metis count_greater_zero_iff count_mset_0_iff distinct_count_atmost_1 le_antisym
        less_one not_le set_mset_mset)
qed

lemma mset_concat_map_push:
  "mset (concat (map snd (map_push k v m))) = add_mset v (mset (concat (map snd m)))"
  by (induction m) auto

lemma mset_groups: "mset (concat (map snd (group_by key cs))) = mset cs"
proof (induction cs rule: rev_induct)
  case Nil
  show ?case by (simp add: group_by_Nil)
next
  case (snoc c cs)
  then show ?case by (simp add: group_by_snoc mset_concat_map_push)
qed

lemma mset_concat_mono:
  assumes "\<forall>x\<in>set xs. mset (f x) \<subseteq># mset (g x)"
  shows "mset (concat (map f xs)) \<subseteq># mset (concat (map g xs))"
  using assms by (induction xs) (simp_all add: subset_mset.add_mono)

lemma mset_drop_subset: "mset (drop n xs) \<subseteq># mset xs"
proof -
  have "mset xs = mset (take n xs) + mset (drop n xs)"
    by (metis append_take_drop_id mset_append)
  then show ?thesis by simp
qed

lemma mset_exact_candidates: "mset (exact_candidates getTime cs) \<subseteq># mset cs"
proof -
  have "mset (exact_candidates getTime cs) \<subseteq># mset (concat (map snd (group_by duplicate_key cs)))"
    unfolding exact_candidates_def
  proof (rule mset_concat_mono, rule ballI)
    fix p assume "p \<in> set (group_by duplicate_key cs)"
    obtain k g where p: "p = (k, g)" by (cases p)
    have "mset (drop 1 (js_sort (newest_first getTime) g)) \<subseteq># mset (js_sort (newest_first getTime) g)"
      by (rule mset_drop_subset)
    then show "mset (case p of (k, grp) \<Rightarrow>
                  if 1 < length grp then drop 1 (js_sort (newest_first getTime) grp) else [])
               \<subseteq># mset (snd p)"
      by (simp add: p mset_js_sort)
  qed
  then show ?thesis by (simp add: mset_groups)
qed

lemma exact_candidates_member:
  "c \<in> set (exact_candidates getTime cs) \<longleftrightarrow>
     length (filter (\<lambda>x. duplicate_key x = duplicate_key c) cs) > 1 \<and>
     c \<in> set (drop 1 (js_sort (newest_first getTime)
                  (filter (\<lambda>x. duplicate_key x = duplicate_key c) cs)))"
proof
  assume "c \<in> set (exact_candidates getTime cs)"
  then obtain k g where kg: "(k, g) \<in> set (group_by duplicate_key cs)"
      and big: "length g > 1" and c: "c \<in> set (drop 1 (js_sort (newest_first getTime) g))"
    by (auto simp: exact_candidates_def split: if_splits)
  from kg have g: "g = filter (\<lambda>x. duplicate_key x = k) cs"
    by (simp add: group_by_member)
  from c have "c \<in> set (js_sort (newest_first getTime) g)" by (rule in_set_dropD)
  then have "c \<in> set g" by (simp add: set_js_sort)
  then have "duplicate_key c = k" using g by simp
  with g big c show "length (filter (\<lambda>x. duplicate_key x = duplicate_key c) cs) > 1 \<and>
     c \<in> set (drop 1 (js_sort (newest_first getTime)
                  (filter (\<lambda>x. duplicate_key x = duplicate_key c) cs)))"
    by simp
next
  let ?g = "filter (\<lambda>x. duplicate_key x = duplicate_key c) cs"
  assume a: "length ?g > 1 \<and> c \<in> set (drop 1 (js_sort (newest_first getTime) ?g))"
  then have "c \<in> set (js_sort (newest_first getTime) ?g)" by (blast dest: in_set_dropD)
  then have "c \<in> set cs" by (simp add: set_js_sort)
  then have "(duplicate_key c, ?g) \<in> set (group_by duplicate_key cs)"
    by (simp add: group_by_member)
  with a show "c \<in> set (exact_candidates getTime cs)"
    by (force simp: exact_candidates_def)
qed

lemma exact_candidates_empty:
  assumes "\<forall>k. length (filter (\<lambda>x. duplicate_key x = k) cs) \<le> 1"
  shows "exact_candidates getTime cs = []"
proof (cases "exact_candidates getTime cs")
  case Nil
  then show ?thesis .
next
  case (Cons c rest)
  then have "c \<in> set (exact_candidates getTime cs)" by simp
  then have "length (filter (\<lambda>x. duplicate_key x = duplicate_key c) cs) > 1"
    by (simp add: exact_candidates_member)
  with assms show ?thesis by (metis not_le)
qed

text \<open>The exact-mode loop over the store held in memory.\<close>

lemma memory_delete:
  "deleteSandwichCollection memory_storage i s =
     (if i \<in> cid ` set s then (Deleted, filter (\<lambda>c. cid c \<noteq> i) s) else (NotFound, s))"
  by (auto simp: memory_storage_def list_ex_iff)

lemma clean_loop_memory_store:
  "snd (snd (snd (clean_loop memory_storage cs n errs made s))) =
     filter (\<lambda>c. cid c \<notin> cid ` set cs) s"
proof (induction cs arbitrary: n errs made s)
  case Nil
  show ?case by simp
next
  case (Cons c cs)
  show ?case
  proof (cases "cid c \<in> cid ` set s")
    case True
    then show ?thesis
      by (simp add: memory_delete Cons.IH)
  next
    case False
    then have "filter (\<lambda>x. cid x \<notin> cid ` set (c # cs)) s = filter (\<lambda>x. cid x \<notin> cid ` set cs) s"
      by (intro filter_cong refl) (auto simp: image_iff)
    with False show ?thesis
      by (simp add: memory_delete Cons.IH)
  qed
qed

lemma clean_loop_memory_all:
  assumes "distinct (map cid cs)" and "cid ` set cs \<subseteq> cid ` set s"
  shows "clean_loop memory_storage cs n errs made s =
           (n + length cs, errs, made @ map (\<lambda>c. (cid c, Deleted)) cs,
            filter (\<lambda>c. cid c \<notin> cid ` set cs) s)"
  using assms
proof (induction cs arbitrary: n errs made s)
  case Nil
  show ?case by simp
next
  case (Cons c cs)
  let ?s1 = "filter (\<lambda>x. cid x \<noteq> cid c) s"
  have here: "cid c \<in> cid ` set s" using Cons.prems(2) by simp
  have d: "distinct (map cid cs)" and notin: "cid c \<notin> cid ` set cs"
    using Cons.prems(1) by auto
  have sub: "cid ` set cs \<subseteq> cid ` set ?s1"
  proof
    fix i assume i: "i \<in> cid ` set cs"
    then have "i \<noteq> cid c" using notin by metis
    moreover from i Cons.prems(2) obtain x where "x \<in> set s" "cid x = i" by auto
    ultimately show "i \<in> cid ` set ?s1" by force
  qed
  have "filter (\<lambda>x. cid x \<notin> cid ` set cs) ?s1 = filter (\<lambda>x. cid x \<notin> cid ` set (c # cs)) s"
    by (simp add: conj_commute)
  then show ?case
    using Cons.IH [OF d sub, of "n + 1" errs "made @ [(cid c, Deleted)]"] here
    by (simp add: memory_delete)
qed

lemma group_rest_deleted:
  assumes "js_sort (newest_first getTime) (filter (\<lambda>x. duplicate_key x = k) cs) = h # rest"
  shows "filter (\<lambda>c. cid c \<notin> cid ` set (exact_candidates getTime cs)) rest = []"
proof -
  let ?g = "filter (\<lambda>x. duplicate_key x = k) cs"
  have "\<forall>r\<in>set rest. cid r \<in> cid ` set (exact_candidates getTime cs)"
  proof
    fix r assume r: "r \<in> set rest"
    then have "r \<in> set (js_sort (newest_first getTime) ?g)" using assms by simp
    then have "r \<in> set ?g" by (simp add: set_js_sort)
    then have key: "duplicate_key r = k" by simp
    have "length (js_sort (newest_first getTime) ?g) > 1" using assms r by (cases rest) auto
    then have big: "length ?g > 1" by (simp add: length_js_sort)
    have "r \<in> set (drop 1 (js_sort (newest_first getTime) ?g))" using assms r by simp
    with big key have "r \<in> set (exact_candidates getTime cs)"
      by (simp add: exact_candidates_member)
    then show "cid r \<in> cid ` set (exact_candidates getTime cs)" by (rule imageI)
  qed
  then show ?thesis by (simp add: filter_empty_conv)
qed

lemma length_filter_js_sort: "length (filter P (js_sort f xs)) = length (filter P xs)"
proof -
  have "mset (filter P (js_sort f xs)) = mset (filter P xs)"
    by (simp add: mset_js_sort)
  then show ?thesis by (metis size_mset)
qed

lemma survivors_filter:
  "filter (\<lambda>x. duplicate_key x = k) (filter P cs) = filter P (filter (\<lambda>x. duplicate_key x = k) cs)"
  by (simp add: conj_commute)

lemma at_most_one_survivor:
  "length (filter (\<lambda>x. duplicate_key x = k)
     (filter (\<lambda>c. cid c \<notin> cid ` set (exact_candidates getTime cs)) cs)) \<le> 1"
proof -
  let ?P = "\<lambda>c. cid c \<notin> cid ` set (exact_candidates getTime cs)"
  let ?g = "filter (\<lambda>x. duplicate_key x = k) cs"
  show ?thesis
  proof (cases "js_sort (newest_first getTime) ?g")
    case Nil
    then have "?g = []" by (simp add: js_sort_eq_Nil)
    then show ?thesis unfolding survivors_filter by simp
  next
    case (Cons h rest)
    have "length (filter ?P ?g) = length (filter ?P (js_sort (newest_first getTime) ?g))"
      by (simp add: length_filter_js_sort)
    also have "\<dots> = length (filter ?P [h]) + length (filter ?P rest)"
      unfolding Cons by simp
    also have "\<dots> = length (filter ?P [h])"
      using group_rest_deleted [OF Cons] by simp
    also have "\<dots> \<le> 1" by simp
    finally show ?thesis unfolding survivors_filter .
  qed
qed

lemma kept_record_survives:
  assumes "distinct (map cid cs)"
      and "js_sort (newest_first getTime) (filter (\<lambda>x. duplicate_key x = k) cs) = h # rest"
  shows "cid h \<notin> cid ` set (exact_candidates getTime cs)"
proof
  let ?g = "filter (\<lambda>x. duplicate_key x = k) cs"
  assume "cid h \<in> cid ` set (exact_candidates getTime cs)"
  then obtain c where c: "c \<in> set (exact_candidates getTime cs)" and same: "cid c = cid h"
    by auto
  have "h \<in> set (js_sort (newest_first getTime) ?g)" using assms(2) by simp
  then have hg: "h \<in> set ?g" by (simp add: set_js_sort)
  then have hcs: "h \<in> set cs" and key: "duplicate_key h = k" by simp_all
  have ccs: "c \<in> set cs"
    using c mset_exact_candidates [of getTime cs] by (metis mset_subset_eqD set_mset_mset)
  have inj: "inj_on cid (set cs)" and dcs: "distinct cs"
    using assms(1) by (simp_all add: distinct_map)
  from inj same ccs hcs have "c = h" by (rule inj_onD)
  with c key have "h \<in> set (drop 1 (js_sort (newest_first getTime) ?g))"
    by (simp add: exact_candidates_member)
  then have "h \<in> set rest" using assms(2) by simp
  then have "\<not> distinct (js_sort (newest_first getTime) ?g)" using assms(2) by simp
  moreover have "distinct ?g" using dcs by simp
  ultimately show False
    using mset_eq_imp_distinct_iff [OF mset_js_sort [of "newest_first getTime" ?g]] by blast
qed

lemma exactly_one_survivor:
  assumes "distinct (map cid cs)" and "k \<in> duplicate_key ` set cs"
  shows "length (filter (\<lambda>x. duplicate_key x = k)
           (filter (\<lambda>c. cid c \<notin> cid ` set (exact_candidates getTime cs)) cs)) = 1"
proof -
  let ?P = "\<lambda>c. cid c \<notin> cid ` set (exact_candidates getTime cs)"
  let ?g = "filter (\<lambda>x. duplicate_key x = k) cs"
  from assms(2) have "?g \<noteq> []" by (auto simp: filter_empty_conv)
  then obtain h rest where S: "js_sort (newest_first getTime) ?g = h # rest"
    by (cases "js_sort (newest_first getTime) ?g") (simp_all add: js_sort_eq_Nil)
  have "length (filter ?P ?g) = length (filter ?P (js_sort (newest_first getTime) ?g))"
    by (simp add: length_filter_js_sort)
  also have "\<dots> = length (filter ?P [h]) + length (filter ?P rest)"
    unfolding S by simp
  also have "\<dots> = length (filter ?P [h])"
    using group_rest_deleted [OF S] by simp
  also have "\<dots> = 1"
    using kept_record_survives [OF assms(1) S] by simp
  finally show ?thesis unfolding survivors_filter .
qed

lemma clean_exact_memory:
  assumes "distinct (map cid cs)"
  shows "clean_duplicates getTime memory_storage (Some ''exact'') cs =
           \<lparr>response = Inr
              \<lparr>message = ''Successfully cleaned '' @
                          number_toString (int (length (exact_candidates getTime cs))) @
                          '' duplicate entries using exact mode'',
               deletedCount = length (exact_candidates getTime cs),
               totalFound = length (exact_candidates getTime cs),
               errors = None, mode = ''exact''\<rparr>,
            calls = map (\<lambda>c. (cid c, Deleted)) (js_sort id_descending (exact_candidates getTime cs)),
            store = filter (\<lambda>c. cid c \<notin> cid ` set (exact_candidates getTime cs)) cs\<rparr>"
proof -
  let ?cands = "exact_candidates getTime cs"
  let ?sorted = "js_sort id_descending ?cands"
  have sub: "mset ?sorted \<subseteq># mset cs"
    by (simp add: mset_js_sort mset_exact_candidates)
  then have "mset (map cid ?sorted) \<subseteq># mset (map cid cs)"
    by (metis image_mset_subseteq_mono mset_map)
  then have d: "distinct (map cid ?sorted)"
    using assms by (rule distinct_of_submultiset)
  have "set ?sorted \<subseteq> set cs"
    using sub by (metis set_mset_mono set_mset_mset)
  then have i: "cid ` set ?sorted \<subseteq> cid ` set cs" by blast
  have loop: "clean_loop memory_storage ?sorted 0 [] [] cs =
      (0 + length ?sorted, [], [] @ map (\<lambda>c. (cid c, Deleted)) ?sorted,
       filter (\<lambda>c. cid c \<notin> cid ` set ?sorted) cs)"
    by (rule clean_loop_memory_all [OF d i])
  have get: "getAllSandwichCollections memory_storage cs = Some cs"
    by (simp add: memory_storage_def)
  show ?thesis
    using loop get
    by (simp add: clean_duplicates_def clean_candidates_def undefined_if_empty_def
          length_js_sort set_js_sort)
qed

text \<open>
  C3. Exact-mode cleanup is idempotent. On a store whose ids are distinct every delete
  of the first run succeeds; afterwards each grouping key of the original records has
  exactly one surviving record, the exact-mode candidate set of the resulting store is
  empty, and a second run makes no delete call, leaves the store as it is and reports
  zero deletions.
\<close>

theorem exact_cleanup_idempotent:
  assumes "distinct (map cid cs)"
  shows "(let R1 = clean_duplicates getTime memory_storage (Some ''exact'') cs;
              R2 = clean_duplicates getTime memory_storage (Some ''exact'') (store R1)
          in list_all was_deleted (calls R1) \<and>
             map fst (calls R1) = map cid (js_sort id_descending (exact_candidates getTime cs)) \<and>
             (\<exists>resp. response R1 = Inr resp \<and> deletedCount resp = totalFound resp \<and>
                totalFound resp = length (exact_candidates getTime cs) \<and> errors resp = None) \<and>
             set (store R1) \<subseteq> set cs \<and>
             (\<forall>k\<in>duplicate_key ` set cs.
                length (filter (\<lambda>c. duplicate_key c = k) (store R1)) = 1) \<and>
             exact_candidates getTime (store R1) = [] \<and>
             R2 = \<lparr>response = Inr
                     \<lparr>message = ''Successfully cleaned 0 duplicate entries using exact mode'',
                      deletedCount = 0, totalFound = 0, errors = None, mode = ''exact''\<rparr>,
                   calls = [], store = store R1\<rparr>)"
proof -
  let ?s1 = "filter (\<lambda>c. cid c \<notin> cid ` set (exact_candidates getTime cs)) cs"
  have R1: "clean_duplicates getTime memory_storage (Some ''exact'') cs =
           \<lparr>response = Inr
              \<lparr>message = ''Successfully cleaned '' @
                          number_toString (int (length (exact_candidates getTime cs))) @
                          '' duplicate entries using exact mode'',
               deletedCount = length (exact_candidates getTime cs),
               totalFound = length (exact_candidates getTime cs),
               errors = None, mode = ''exact''\<rparr>,
            calls = map (\<lambda>c. (cid c, Deleted)) (js_sort id_descending (exact_candidates getTime cs)),
            store = ?s1\<rparr>"
    by (rule clean_exact_memory [OF assms])
  have none: "exact_candidates getTime ?s1 = []"
    by (rule exact_candidates_empty) (rule allI, rule at_most_one_survivor)
  have "distinct (map cid ?s1)"
    using assms by (simp add: distinct_map_filter)
  from clean_exact_memory [OF this, of getTime]
  have R2: "clean_duplicates getTime memory_storage (Some ''exact'') ?s1 =
           \<lparr>response = Inr
              \<lparr>message = ''Successfully cleaned 0 duplicate entries using exact mode'',
               deletedCount = 0, totalFound = 0, errors = None, mode = ''exact''\<rparr>,
            calls = [], store = ?s1\<rparr>"
    by (simp add: none js_sort_Nil number_toString_0)
  have one: "\<forall>k\<in>duplicate_key ` set cs. length (filter (\<lambda>c. duplicate_key c = k) ?s1) = 1"
    using exactly_one_survivor [OF assms] by blast
  have ok: "list_all was_deleted
              (map (\<lambda>c. (cid c, Deleted)) (js_sort id_descending (exact_candidates getTime cs)))"
    by (simp add: list_all_iff was_deleted_pair)
  show ?thesis
    unfolding Let_def R1
    using none R2 one ok by (simp add: comp_def)
qed

theorem exact_cleanup_idempotent_witness:
  "distinct (map cid
     [dup_record 1 ''2021-01-05T10:00:00.000Z'', plain_record 2,
      dup_record 3 ''2021-01-06T10:00:00.000Z'', dup_record 4 ''not a date'', plain_record 5]) \<and>
   store (clean_duplicates sample_getTime memory_storage (Some ''exact'')
     [dup_record 1 ''2021-01-05T10:00:00.000Z'', plain_record 2,
      dup_record 3 ''2021-01-06T10:00:00.000Z'', dup_record 4 ''not a date'', plain_record 5]) =
     [plain_record 2, dup_record 3 ''2021-01-06T10:00:00.000Z''] \<and>
   calls (clean_duplicates sample_getTime memory_storage (Some ''exact'')
     [dup_record 1 ''2021-01-05T10:00:00.000Z'', plain_record 2,
      dup_record 3 ''2021-01-06T10:00:00.000Z'', dup_record 4 ''not a date'', plain_record 5]) =
     [(5, Deleted), (4, Deleted), (1, Deleted)] \<and>
   clean_duplicates sample_getTime memory_storage (Some ''exact'')
     [plain_record 2, dup_record 3 ''2021-01-06T10:00:00.000Z''] =
     \<lparr>response = Inr
        \<lparr>message = ''Successfully cleaned 0 duplicate entries using exact mode'',
         deletedCount = 0, totalFound = 0, errors = None, mode = ''exact''\<rparr>,
      calls = [], store = [plain_record 2, dup_record 3 ''2021-01-06T10:00:00.000Z'']\<rparr>"
proof -
  let ?cs = "[dup_record 1 ''2021-01-05T10:00:00.000Z'', plain_record 2,
      dup_record 3 ''2021-01-06T10:00:00.000Z'', dup_record 4 ''not a date'', plain_record 5]"
  have h: "distinct (map cid ?cs)" by code_simp
  have s: "store (clean_duplicates sample_getTime memory_storage (Some ''exact'') ?cs) =
     [plain_record 2, dup_record 3 ''2021-01-06T10:00:00.000Z'']"
    by code_simp
  have c: "calls (clean_duplicates sample_getTime memory_storage (Some ''exact'') ?cs) =
     [(5, Deleted), (4, Deleted), (1, Deleted)]"
    by code_simp
  show ?thesis
    using exact_cleanup_idempotent [OF h, of sample_getTime] h s c
    by (simp add: Let_def)
qed

section \<open>Key texts\<close>

lemma nat_of_digits_of_nat: "nat_of_digits (digits_of_nat n) = n"
proof (induction n rule: digits_of_nat.induct)
  case (1 n)
  show ?case
  proof (cases "n < 10")
    case True
    then show ?thesis
      by (subst digits_of_nat.simps) (simp add: nat_of_digits_def)
  next
    case False
    have m: "n mod 10 < 10" by simp
    have "nat_of_digits (digits_of_nat n) =
            10 * nat_of_digits (digits_of_nat (n div 10)) + ((48 + n mod 10) mod 256 - 48)"
      using False by (subst digits_of_nat.simps) (simp add: nat_of_digits_def)
    also have "(48 + n mod 10) mod 256 = 48 + n mod 10"
      using m by simp
    finally show ?thesis using "1.IH" [OF False] by simp
  qed
qed

lemma digits_of_nat_inject: "digits_of_nat m = digits_of_nat n \<Longrightarrow> m = n"
  by (metis nat_of_digits_of_nat)

lemma digit_not_minus: "k < 10 \<Longrightarrow> char_of (48 + k :: nat) \<noteq> CHR ''-''"
proof
  assume k: "k < 10" and "char_of (48 + k) = CHR ''-''"
  then have "(of_char (char_of (48 + k) :: char) :: nat) = of_char CHR ''-''" by simp
  then have "(48 + k) mod 256 = (45 :: nat)" by simp
  with k show False by simp
qed

lemma digits_of_nat_no_minus: "CHR ''-'' \<notin> set (digits_of_nat n)"
proof (induction n rule: digits_of_nat.induct)
  case (1 n)
  show ?case
  proof (cases "n < 10")
    case True
    then show ?thesis
      using digit_not_minus [of n] by (subst digits_of_nat.simps) auto
  next
    case False
    have "n mod 10 < 10" by simp
    then have "char_of (48 + n mod 10) \<noteq> CHR ''-''" by (rule digit_not_minus)
    with False "1.IH" show ?thesis
      by (subst digits_of_nat.simps) auto
  qed
qed

lemma digits_of_nat_not_Nil: "digits_of_nat n \<noteq> []"
  by (subst digits_of_nat.simps) simp

lemma number_toString_inject: "number_toString i = number_toString j \<Longrightarrow> i = j"
proof -
  assume eq: "number_toString i = number_toString j"
  have hd_neg: "\<And>x. x < 0 \<Longrightarrow> hd (number_toString x) = CHR ''-''"
    by (simp add: number_toString_def)
  have hd_pos: "\<And>x. \<not> x < 0 \<Longrightarrow> hd (number_toString x) \<noteq> CHR ''-''"
  proof -
    fix x :: int assume "\<not> x < 0"
    then have "number_toString x = digits_of_nat (nat x)" by (simp add: number_toString_def)
    moreover have "hd (digits_of_nat (nat x)) \<in> set (digits_of_nat (nat x))"
      by (simp add: digits_of_nat_not_Nil)
    ultimately show "hd (number_toString x) \<noteq> CHR ''-''"
      using digits_of_nat_no_minus [of "nat x"] by metis
  qed
  show "i = j"
  proof (cases "i < 0")
    case True
    then have "j < 0" using eq hd_neg hd_pos by metis
    with True eq have "digits_of_nat (nat (- i)) = digits_of_nat (nat (- j))"
      by (simp add: number_toString_def)
    then have "nat (- i) = nat (- j)" by (rule digits_of_nat_inject)
    with True \<open>j < 0\<close> show ?thesis by simp
  next
    case False
    then have "\<not> j < 0" using eq hd_neg hd_pos by metis
    with False eq have "digits_of_nat (nat i) = digits_of_nat (nat j)"
      by (simp add: number_toString_def)
    then have "nat i = nat j" by (rule digits_of_nat_inject)
    with False \<open>\<not> j < 0\<close> show ?thesis by simp
  qed
qed

lemma split_at_last_separator:
  assumes "xs @ s # ys = xs' @ s # ys'" and "s \<notin> set ys" and "s \<notin> set ys'"
  shows "xs = xs' \<and> ys = ys'"
proof -
  have tw: "\<And>us vs. s \<notin> set vs \<Longrightarrow> takeWhile (\<lambda>c. c \<noteq> s) (rev (us @ s # vs)) = rev vs"
  proof -
    fix us vs :: "'a list" assume "s \<notin> set vs"
    then have "\<And>x. x \<in> set (rev vs) \<Longrightarrow> x \<noteq> s" by auto
    then have "takeWhile (\<lambda>c. c \<noteq> s) (rev vs @ s # rev us) =
               rev vs @ takeWhile (\<lambda>c. c \<noteq> s) (s # rev us)"
      by (rule takeWhile_append2)
    then show "takeWhile (\<lambda>c. c \<noteq> s) (rev (us @ s # vs)) = rev vs" by simp
  qed
  have a: "takeWhile (\<lambda>c. c \<noteq> s) (rev (xs @ s # ys)) = rev ys"
    using assms(2) by (rule tw)
  have b: "takeWhile (\<lambda>c. c \<noteq> s) (rev (xs' @ s # ys')) = rev ys'"
    using assms(3) by (rule tw)
  from a b assms(1) have "rev ys = rev ys'" by simp
  then have "ys = ys'" by simp
  with assms(1) show ?thesis by simp
qed

lemma og_key_inject:
  assumes "og_key a = og_key b"
      and "(0 \<le> individualSandwiches a \<and> 0 \<le> individualSandwiches b) \<or>
           collectionDate a = collectionDate b \<or>
           individualSandwiches a = individualSandwiches b"
  shows "collectionDate a = collectionDate b \<and> individualSandwiches a = individualSandwiches b"
proof -
  from assms(1) have eq: "collectionDate a @ CHR ''-'' # number_toString (individualSandwiches a) =
      collectionDate b @ CHR ''-'' # number_toString (individualSandwiches b)"
    by (simp add: og_key_def)
  from assms(2) consider
      (nonneg) "0 \<le> individualSandwiches a" "0 \<le> individualSandwiches b"
    | (date) "collectionDate a = collectionDate b"
    | (count) "individualSandwiches a = individualSandwiches b"
    by blast
  then show ?thesis
  proof cases
    case nonneg
    then have "CHR ''-'' \<notin> set (number_toString (individualSandwiches a))"
          and "CHR ''-'' \<notin> set (number_toString (individualSandwiches b))"
      by (simp_all add: number_toString_def digits_of_nat_no_minus)
    from split_at_last_separator [OF eq this]
    show ?thesis by (auto dest: number_toString_inject)
  next
    case date
    with eq show ?thesis by (auto dest: number_toString_inject)
  next
    case count
    with eq show ?thesis by simp
  qed
qed

lemma group_by_single: "group_by key [c] = [(key c, [c])]"
  by (simp add: group_by_def)

lemma early_is_not_og: "is_early_collection c \<Longrightarrow> \<not> is_og_collection c"
  by (simp add: is_early_collection_def is_og_collection_def)

lemma og_is_not_early: "is_og_collection c \<Longrightarrow> \<not> is_early_collection c"
  by (simp add: is_early_collection_def is_og_collection_def)

lemma early_match_first_og:
  "early_matches (group_by og_key ogs) [early] =
     (case filter (\<lambda>og. og_key og = og_key early) ogs of
        [] \<Rightarrow> []
      | og # _ \<Rightarrow> [EarlyMatch (Some og) early ''Same date and sandwich count as OG Project entry''])"
proof (cases "og_key early \<in> og_key ` set ogs")
  case True
  then have "filter (\<lambda>og. og_key og = og_key early) ogs \<noteq> []"
    by (auto simp: filter_empty_conv)
  then obtain og rest where "filter (\<lambda>og. og_key og = og_key early) ogs = og # rest"
    by (cases "filter (\<lambda>og. og_key og = og_key early) ogs") auto
  with True show ?thesis
    by (simp add: early_matches_def map_of_group_by first_elem_def)
next
  case False
  then have "filter (\<lambda>og. og_key og = og_key early) ogs = []"
    by (simp add: filter_empty_conv) (metis imageI)
  with False show ?thesis
    by (simp add: early_matches_def map_of_group_by)
qed

lemma og_matcher_pair:
  assumes "is_og_collection og" and "is_early_collection early"
  shows "og_matcher getTime [og, early] =
           (if og_key og = og_key early
            then [EarlyMatch (Some og) early ''Same date and sandwich count as OG Project entry'']
            else [])"
    and "og_matcher getTime [early, og] =
           (if og_key og = og_key early
            then [EarlyMatch (Some og) early ''Same date and sandwich count as OG Project entry'']
            else [])"
  using assms early_is_not_og [OF assms(2)] og_is_not_early [OF assms(1)]
  by (simp_all add: og_matcher_def group_by_single early_match_first_og og_group_matches_def)

lemma og_pair_matching:
  assumes "is_og_collection og" and "is_early_collection early"
      and "(0 \<le> individualSandwiches og \<and> 0 \<le> individualSandwiches early) \<or>
           collectionDate og = collectionDate early \<or>
           individualSandwiches og = individualSandwiches early"
  shows "og_matcher getTime [og, early] =
           (if collectionDate og = collectionDate early \<and>
               individualSandwiches og = individualSandwiches early
            then [EarlyMatch (Some og) early ''Same date and sandwich count as OG Project entry'']
            else [])"
proof -
  have "og_key og = og_key early \<longleftrightarrow>
          collectionDate og = collectionDate early \<and>
          individualSandwiches og = individualSandwiches early"
    using og_key_inject [OF _ assms(3)] by (auto simp: og_key_def)
  then show ?thesis
    by (simp add: og_matcher_pair(1) [OF assms(1,2)])
qed

lemma og_matching_example:
  "og_matcher sample_getTime
     [og_record 1 ''2021-01-05'' 100, early_record 2 (Some []) ''2021-01-05'' 100] =
     [EarlyMatch (Some (og_record 1 ''2021-01-05'' 100)) (early_record 2 (Some []) ''2021-01-05'' 100)
        ''Same date and sandwich count as OG Project entry'']"
  "og_matcher sample_getTime
     [og_record 1 ''2021-01-05'' 100, early_record 2 (Some []) ''2021-01-06'' 100] = []"
  "og_matcher sample_getTime
     [og_record 1 ''2021-01-05'' 100, early_record 2 (Some []) ''2021-01-05'' 101] = []"
  "og_matcher sample_getTime
     [og_record 1 ''2021-01-05'' 100, early_record 2 None ''2021-01-05'' 100] =
     [EarlyMatch (Some (og_record 1 ''2021-01-05'' 100)) (early_record 2 None ''2021-01-05'' 100)
        ''Same date and sandwich count as OG Project entry'']"
  "analyze_duplicates sample_getTime
     [og_record 1 ''2021-01-05'' 100, early_record 2 None ''2021-01-05'' 100] =
     Inl (Status500 ''Failed to analyze duplicates'')"
  by code_simp+

text \<open>
  C6. For one OG record and one early record the matcher emits the pairing exactly
  when the two \<open>og_key\<close> texts are equal (\<open>og_matcher_pair\<close>), which for non-negative
  counts means equal date and equal count (\<open>og_pair_matching\<close>). Two inputs on which
  the code departs from that: an early record whose \<open>hostName\<close> is \<open>null\<close> never
  reaches the matcher, because the first loop of the handler calls \<open>toLowerCase\<close> on
  it and the handler answers 500; and the key texts of different (date, count) pairs
  can be equal, a date followed by a hyphen with the count 100 and the same date
  without the hyphen with the count -100 both giving a key ending in \<open>--100\<close>, so
  that the matcher pairs two records whose dates and counts both differ.
\<close>

theorem og_matching_divergences:
  "is_og_collection (og_record 1 ''2021-01-05'' 100) \<and>
   is_early_collection (early_record 2 None ''2021-01-05'' 100) \<and>
   analyze_duplicates sample_getTime
     [og_record 1 ''2021-01-05'' 100, early_record 2 None ''2021-01-05'' 100] =
     Inl (Status500 ''Failed to analyze duplicates'') \<and>
   is_og_collection (og_record 1 ''2021-01-05'' (- 100)) \<and>
   is_early_collection (early_record 2 (Some []) ''2021-01-05-'' 100) \<and>
   collectionDate (og_record 1 ''2021-01-05'' (- 100)) \<noteq>
     collectionDate (early_record 2 (Some []) ''2021-01-05-'' 100) \<and>
   individualSandwiches (og_record 1 ''2021-01-05'' (- 100)) \<noteq>
     individualSandwiches (early_record 2 (Some []) ''2021-01-05-'' 100) \<and>
   og_key (og_record 1 ''2021-01-05'' (- 100)) = ''2021-01-05--100'' \<and>
   og_key (early_record 2 (Some []) ''2021-01-05-'' 100) = ''2021-01-05--100'' \<and>
   og_matcher sample_getTime
     [og_record 1 ''2021-01-05'' (- 100), early_record 2 (Some []) ''2021-01-05-'' 100] =
     [EarlyMatch (Some (og_record 1 ''2021-01-05'' (- 100)))
        (early_record 2 (Some []) ''2021-01-05-'' 100)
        ''Same date and sandwich count as OG Project entry'']"
  by code_simp

lemma same_group_iff_same_key:
  assumes "a \<in> set cs" and "b \<in> set cs"
  shows "(\<exists>g\<in>set (map snd (group_by duplicate_key cs)). a \<in> set g \<and> b \<in> set g) \<longleftrightarrow>
         duplicate_key a = duplicate_key b"
proof
  assume "\<exists>g\<in>set (map snd (group_by duplicate_key cs)). a \<in> set g \<and> b \<in> set g"
  then obtain k g where "(k, g) \<in> set (group_by duplicate_key cs)" "a \<in> set g" "b \<in> set g"
    by auto
  then show "duplicate_key a = duplicate_key b"
    by (simp add: group_by_member)
next
  assume eq: "duplicate_key a = duplicate_key b"
  let ?g = "filter (\<lambda>c. duplicate_key c = duplicate_key a) cs"
  have "(duplicate_key a, ?g) \<in> set (group_by duplicate_key cs)"
    using assms(1) by (simp add: group_by_member)
  moreover have "a \<in> set ?g" "b \<in> set ?g" using assms eq by simp_all
  ultimately show "\<exists>g\<in>set (map snd (group_by duplicate_key cs)). a \<in> set g \<and> b \<in> set g"
    by force
qed

lemma equal_tuples_share_key:
  assumes "collectionDate a = collectionDate b" and "hostName a = hostName b"
      and "individualSandwiches a = individualSandwiches b"
      and "groupCollections a = groupCollections b"
  shows "duplicate_key a = duplicate_key b"
  using assms by (simp add: duplicate_key_def)

text \<open>
  C1. Two records of the input are in the same group exactly when their
  \<open>duplicate_key\<close> texts are equal (\<open>same_group_iff_same_key\<close>), and equal tuples give
  equal texts. The converse fails: the hyphen that separates the fields also occurs
  inside them, so the records \<open>troop_a\<close> and \<open>troop_b\<close>, which differ in host name,
  count and group collections, have the same key text. analyze-duplicates reports them
  as one duplicate group and clean-duplicates in exact mode deletes one of them.
\<close>

theorem duplicate_key_collision_groups_distinct_tuples:
  "hostName troop_a \<noteq> hostName troop_b \<and>
   individualSandwiches troop_a \<noteq> individualSandwiches troop_b \<and>
   groupCollections troop_a \<noteq> groupCollections troop_b \<and>
   duplicate_key troop_a = ''2021-01-05-Troop-10-5-Star Club: 20'' \<and>
   duplicate_key troop_b = ''2021-01-05-Troop-10-5-Star Club: 20'' \<and>
   analyze_duplicates sample_getTime [troop_a, troop_b] =
     Inr \<lparr>totalCollections = 2, duplicateGroups = 1, totalDuplicateEntries = 1,
          suspiciousPatterns = 0, ogDuplicates = 0,
          duplicates =
            [\<lparr>entries = [troop_b, troop_a], group_count = 2,
              keepNewest = Some troop_b, toDelete = [troop_a]\<rparr>],
          suspiciousEntries = [], ogDuplicateEntries = []\<rparr> \<and>
   store (clean_duplicates sample_getTime memory_storage (Some ''exact'') [troop_a, troop_b]) =
     [troop_b]"
  by code_simp

end
